theory Spec2Isabelle
  imports Main "HOL-Library.Word" "HOL-Library.AList"
begin

unbundle bit_operations_syntax

section \<open>JavaScript strings\<close>

text \<open>
  A JavaScript string is modelled as a \<^typ>\<open>string\<close>: a list of code units below 256
  (the Latin-1 range). The methods below are the ones the sources call.
\<close>

definition startsWith :: "string \<Rightarrow> string \<Rightarrow> bool" where
  "startsWith s p = (take (length p) s = p)"

fun includes_js :: "string \<Rightarrow> string \<Rightarrow> bool" where
  "includes_js [] sub = (sub = [])"
| "includes_js (c # cs) sub = (startsWith (c # cs) sub \<or> includes_js cs sub)"

definition lower_char :: "char \<Rightarrow> char" where
  "lower_char c =
     (let n = (of_char c :: nat) in
      if (65 \<le> n \<and> n \<le> 90) \<or> (192 \<le> n \<and> n \<le> 222 \<and> n \<noteq> 215)
      then char_of (n + 32) else c)"

definition toLowerCase :: "string \<Rightarrow> string" where
  "toLowerCase s = map lower_char s"

text \<open>White space of \<open>String.prototype.trim\<close> within the Latin-1 range:
  TAB, LF, VT, FF, CR, SP and NBSP.\<close>

definition is_js_space :: "char \<Rightarrow> bool" where
  "is_js_space c = ((of_char c :: nat) \<in> {9, 10, 11, 12, 13, 32, 160})"

definition trim :: "string \<Rightarrow> string" where
  "trim s = rev (dropWhile is_js_space (rev (dropWhile is_js_space s)))"

fun string_of_nat :: "nat \<Rightarrow> string" where
  "string_of_nat n =
     (if n < 10 then [char_of (48 + n)]
      else string_of_nat (n div 10) @ [char_of (48 + n mod 10)])"


section \<open>Source registry (services/sourceManager.js)\<close>

datatype SourceType = HTTP | LOCAL | STUB

datatype ServiceModule = BatoService | XbatoService

text \<open>
  A registered source object. The fields a stub object does not carry
  (\<open>supportsLatest\<close>, \<open>isNsfw\<close>, \<open>isConfigurable\<close>, \<open>service\<close>) are optional.
\<close>

record Source =
  source_id :: string
  name :: string
  lang :: string
  baseUrl :: string
  source_type :: SourceType
  versionId :: nat
  isStub :: bool
  supportsLatest :: "bool option"
  isNsfw :: "bool option"
  isConfigurable :: "bool option"
  service :: "ServiceModule option"

text \<open>The argument of \<open>registerSource\<close>: the \<open>id\<close> may be missing.\<close>

record SourceInput =
  in_id :: "string option"
  in_name :: string
  in_lang :: string
  in_baseUrl :: string
  in_type :: SourceType
  in_versionId :: nat
  in_supportsLatest :: "bool option"
  in_isNsfw :: "bool option"
  in_service :: "ServiceModule option"

text \<open>The two \<open>Map\<close>s of the \<open>SourceManager\<close> class and its flag.\<close>

record SourceManager =
  sources :: "string \<rightharpoonup> Source"
  stubSources :: "string \<rightharpoonup> Source"
  isInitialized :: bool

definition new_SourceManager :: SourceManager where
  "new_SourceManager = \<lparr> sources = Map.empty, stubSources = Map.empty, isInitialized = False \<rparr>"

text \<open>
  \<open>generateSourceId\<close>: the 32-bit string hash
  \<open>hash = ((hash << 5) - hash) + char; hash = hash & hash\<close>, then
  \<open>Math.abs(hash).toString()\<close>. \<open>registerSource\<close> calls it with two arguments, so
  \<open>versionId\<close> is the default 1.
\<close>

definition hash_step :: "32 word \<Rightarrow> char \<Rightarrow> 32 word" where
  "hash_step hash c = (push_bit 5 hash - hash) + of_nat (of_char c)"

definition generateSourceId :: "string \<Rightarrow> string \<Rightarrow> nat \<Rightarrow> string" where
  "generateSourceId nm lng vid =
     (let str = toLowerCase nm @ ''/'' @ lng @ ''/'' @ string_of_nat vid;
          hash = foldl hash_step 0 str
      in string_of_nat (nat \<bar>sint hash\<bar>))"

text \<open>\<open>source.id || this.generateSourceId(source.name, source.lang)\<close>: a missing or
  empty id is falsy.\<close>

definition enriched_id :: "SourceInput \<Rightarrow> string" where
  "enriched_id src =
     (case in_id src of
        Some i \<Rightarrow> if i \<noteq> [] then i else generateSourceId (in_name src) (in_lang src) 1
      | None \<Rightarrow> generateSourceId (in_name src) (in_lang src) 1)"

definition enrichedSource :: "SourceInput \<Rightarrow> Source" where
  "enrichedSource src =
     \<lparr> source_id = enriched_id src, name = in_name src, lang = in_lang src,
       baseUrl = in_baseUrl src, source_type = in_type src, versionId = in_versionId src,
       isStub = False, supportsLatest = in_supportsLatest src, isNsfw = in_isNsfw src,
       isConfigurable = Some False, service = in_service src \<rparr>"

definition registerSource :: "SourceInput \<Rightarrow> SourceManager \<Rightarrow> SourceManager" where
  "registerSource src m =
     m\<lparr> sources := (sources m)(enriched_id src \<mapsto> enrichedSource src) \<rparr>"

definition stub_object :: "string \<Rightarrow> string \<Rightarrow> Source" where
  "stub_object sourceId sourceName =
     \<lparr> source_id = sourceId, name = sourceName, lang = ''unknown'', baseUrl = '''',
       source_type = STUB, versionId = 0, isStub = True, supportsLatest = None,
       isNsfw = None, isConfigurable = None, service = None \<rparr>"

definition registerStubSource :: "string \<Rightarrow> string \<Rightarrow> SourceManager \<Rightarrow> SourceManager" where
  "registerStubSource sourceId sourceName m =
     m\<lparr> stubSources := (stubSources m)(sourceId \<mapsto> stub_object sourceId sourceName) \<rparr>"

text \<open>\<open>getSource\<close> returns \<open>this.sources.get(sourceId) || null\<close>; the manager is
  returned beside the result so that its effect on the state can be stated.\<close>

definition getSource :: "string \<Rightarrow> SourceManager \<Rightarrow> Source option \<times> SourceManager" where
  "getSource sourceId m = (sources m sourceId, m)"

definition createStubSource :: "string \<Rightarrow> SourceManager \<Rightarrow> Source \<times> SourceManager" where
  "createStubSource sourceId m =
     (let stub = stub_object sourceId (''Source '' @ sourceId)
      in (stub, m\<lparr> stubSources := (stubSources m)(sourceId \<mapsto> stub) \<rparr>))"

text \<open>\<open>this.sources.get(id) || this.stubSources.get(id) || this.createStubSource(id)\<close>:
  source objects are truthy, so each \<open>||\<close> falls through exactly on a missing key.\<close>

definition getSourceOrStub :: "string \<Rightarrow> SourceManager \<Rightarrow> Source \<times> SourceManager" where
  "getSourceOrStub sourceId m =
     (case sources m sourceId of
        Some s \<Rightarrow> (s, m)
      | None \<Rightarrow>
         (case stubSources m sourceId of
            Some s \<Rightarrow> (s, m)
          | None \<Rightarrow> createStubSource sourceId m))"

definition clear :: "SourceManager \<Rightarrow> SourceManager" where
  "clear m = m\<lparr> sources := Map.empty, stubSources := Map.empty, isInitialized := False \<rparr>"

definition BUILT_IN_SOURCES :: "SourceInput list" where
  "BUILT_IN_SOURCES =
     [\<lparr> in_id = Some ''bato_to'', in_name = ''Bato'', in_lang = ''en'',
        in_baseUrl = ''https://bato.to'', in_type = HTTP, in_versionId = 1,
        in_supportsLatest = Some True, in_isNsfw = Some False, in_service = Some BatoService \<rparr>,
      \<lparr> in_id = Some ''xbato_com'', in_name = ''Xbato'', in_lang = ''en'',
        in_baseUrl = ''https://xbato.com'', in_type = HTTP, in_versionId = 1,
        in_supportsLatest = Some True, in_isNsfw = Some False, in_service = Some XbatoService \<rparr>,
      \<lparr> in_id = Some ''mangadex_org'', in_name = ''MangaDex'', in_lang = ''all'',
        in_baseUrl = ''https://mangadex.org'', in_type = HTTP, in_versionId = 1,
        in_supportsLatest = Some True, in_isNsfw = Some False, in_service = None \<rparr>]"

definition initialize :: "SourceManager \<Rightarrow> SourceManager" where
  "initialize m =
     (if isInitialized m then m
      else (foldl (\<lambda>acc src. registerSource src acc) m BUILT_IN_SOURCES)\<lparr> isInitialized := True \<rparr>)"


subsection \<open>Lookups and the registry's maps\<close>

lemma getSource_frame: "snd (getSource i m) = m"
  by (simp add: getSource_def)

lemma getSourceOrStub_known:
  "i \<in> dom (sources m) \<union> dom (stubSources m) \<Longrightarrow> snd (getSourceOrStub i m) = m"
  by (auto simp: getSourceOrStub_def split: option.splits)

lemma getSourceOrStub_unknown:
  "i \<notin> dom (sources m) \<union> dom (stubSources m) \<Longrightarrow>
   snd (getSourceOrStub i m) =
     m\<lparr> stubSources := (stubSources m)(i \<mapsto> stub_object i (''Source '' @ i)) \<rparr>"
  by (auto simp: getSourceOrStub_def createStubSource_def Let_def split: option.splits)

lemma getSourceOrStub_sources: "sources (snd (getSourceOrStub i m)) = sources m"
  by (auto simp: getSourceOrStub_def createStubSource_def Let_def split: option.splits)

text \<open>
  C9, as the claim states it, fails: \<open>getSourceOrStub\<close> on an id that neither map holds
  stores the synthesized stub in \<open>stubSources\<close>. On a fresh manager the lookup of
  \<open>''x''\<close> leaves a manager that differs from the fresh one.
\<close>

theorem C9_getSourceOrStub_mutates:
  "snd (getSourceOrStub ''x'' new_SourceManager) \<noteq> new_SourceManager
   \<and> stubSources (snd (getSourceOrStub ''x'' new_SourceManager)) ''x''
       = Some (stub_object ''x'' ''Source x'')"
proof -
  have "stubSources (snd (getSourceOrStub ''x'' new_SourceManager)) ''x''
          = Some (stub_object ''x'' ''Source x'')"
    by (simp add: getSourceOrStub_def createStubSource_def new_SourceManager_def Let_def)
  moreover have "stubSources new_SourceManager ''x'' = None"
    by (simp add: new_SourceManager_def)
  ultimately show ?thesis by force
qed

text \<open>
  C9, amended: \<open>getSource\<close> leaves the manager unchanged; \<open>getSourceOrStub\<close> never
  changes the \<open>sources\<close> map, leaves the manager unchanged when the id is a key of
  either map, and for an unknown id stores the synthesized stub under that id in
  \<open>stubSources\<close> (and nothing else). \<open>registerSource\<close> makes the source's id map to
  exactly the one enriched source, replacing whatever was registered under it, and
  leaves every other id as it was.
\<close>

theorem C9_lookup_frame:
  "snd (getSource i m) = m
   \<and> sources (snd (getSourceOrStub i m)) = sources m
   \<and> (i \<in> dom (sources m) \<union> dom (stubSources m) \<longrightarrow> snd (getSourceOrStub i m) = m)
   \<and> (i \<notin> dom (sources m) \<union> dom (stubSources m) \<longrightarrow>
        snd (getSourceOrStub i m)
          = m\<lparr> stubSources := (stubSources m)(i \<mapsto> stub_object i (''Source '' @ i)) \<rparr>)
   \<and> fst (getSource (enriched_id src) (registerSource src m)) = Some (enrichedSource src)
   \<and> (j \<noteq> enriched_id src \<longrightarrow>
        fst (getSource j (registerSource src m)) = fst (getSource j m))"
  using getSource_frame getSourceOrStub_known getSourceOrStub_unknown getSourceOrStub_sources
  by (simp add: getSource_def registerSource_def)

theorem C9_lookup_frame_witness:
  "snd (getSourceOrStub ''bato_to'' (initialize new_SourceManager)) = initialize new_SourceManager
   \<and> snd (getSourceOrStub ''nope'' (initialize new_SourceManager))
       = (initialize new_SourceManager)
           \<lparr> stubSources := (stubSources (initialize new_SourceManager))
                (''nope'' \<mapsto> stub_object ''nope'' ''Source nope'') \<rparr>
   \<and> fst (getSource ''mangadex_org'' (registerSource (hd BUILT_IN_SOURCES) new_SourceManager))
       = None"
proof -
  let ?m = "initialize new_SourceManager"
  have k: "''bato_to'' \<in> dom (sources ?m) \<union> dom (stubSources ?m)"
    by (simp add: initialize_def new_SourceManager_def BUILT_IN_SOURCES_def registerSource_def
          enriched_id_def)
  have u: "''nope'' \<notin> dom (sources ?m) \<union> dom (stubSources ?m)"
    by (simp add: initialize_def new_SourceManager_def BUILT_IN_SOURCES_def registerSource_def
          enriched_id_def)
  have e: "''mangadex_org'' \<noteq> enriched_id (hd BUILT_IN_SOURCES)"
    by (simp add: BUILT_IN_SOURCES_def enriched_id_def)
  from C9_lookup_frame [of "''bato_to''" ?m "hd BUILT_IN_SOURCES" "''x''"] k
  have a: "snd (getSourceOrStub ''bato_to'' ?m) = ?m" by blast
  from C9_lookup_frame [of "''nope''" ?m "hd BUILT_IN_SOURCES" "''x''"] u
  have b: "snd (getSourceOrStub ''nope'' ?m)
             = ?m\<lparr> stubSources := (stubSources ?m)(''nope'' \<mapsto> stub_object ''nope'' (''Source '' @ ''nope'')) \<rparr>"
    by blast
  from C9_lookup_frame [of "''x''" new_SourceManager "hd BUILT_IN_SOURCES" "''mangadex_org''"] e
  have c: "fst (getSource ''mangadex_org'' (registerSource (hd BUILT_IN_SOURCES) new_SourceManager))
           = fst (getSource ''mangadex_org'' new_SourceManager)"
    by blast
  have d: "fst (getSource ''mangadex_org'' new_SourceManager) = None"
    by (simp add: getSource_def new_SourceManager_def)
  show ?thesis using a b c d by simp
qed


section \<open>Transport (services/networkUtils.js)\<close>

subsection \<open>The remote side and the clock\<close>

text \<open>
  A \<open>Response\<close> as the transport reads it: the status code, the \<open>server\<close> header
  (\<open>headers.get('server')\<close>, \<open>null\<close> when absent) and the body text.
\<close>

record Response =
  status :: nat
  server :: "string option"
  body :: string

definition ok :: "Response \<Rightarrow> bool" where
  "ok r = (200 \<le> status r \<and> status r \<le> 299)"

text \<open>
  What one call of the platform's \<open>fetch\<close> does: it resolves with a response after
  some milliseconds, rejects with an error after some milliseconds, or never settles.
\<close>

datatype fetch_outcome = Responds nat Response | Rejects nat string | Hangs

datatype error =
    RequestTimeout
  | AbortError
  | FetchRejected string
  | CloudflareNotBypassed
  | HttpStatusError nat
  | AllAttemptsFailed
  | AllDomainsFailed
  | JsonParseError
  | TypeError

text \<open>
  The world outside the program: \<open>remote n url\<close> is the outcome of the \<open>n\<close>-th call of
  \<open>fetch\<close> (counted from 0) when it asks for \<open>url\<close>; \<open>requests\<close> logs the URLs
  fetched so far and \<open>sleeps\<close> the durations, in milliseconds, of the \<open>setTimeout\<close>
  waits between attempts.
\<close>

record world =
  remote :: "nat \<Rightarrow> string \<Rightarrow> fetch_outcome"
  requests :: "string list"
  sleeps :: "nat list"

definition fetch :: "string \<Rightarrow> world \<Rightarrow> fetch_outcome \<times> world" where
  "fetch url w = (remote w (length (requests w)) url, w\<lparr> requests := requests w @ [url] \<rparr>)"

definition sleep :: "nat \<Rightarrow> world \<Rightarrow> world" where
  "sleep ms w = w\<lparr> sleeps := sleeps w @ [ms] \<rparr>"

definition slept :: "world \<Rightarrow> nat" where
  "slept w = sum_list (sleeps w)"

subsection \<open>Challenge detection\<close>

definition isCloudflareChallenge :: "Response \<Rightarrow> string \<Rightarrow> bool" where
  "isCloudflareChallenge response responseText =
     (let serverHeader = toLowerCase (case server response of Some h \<Rightarrow> h | None \<Rightarrow> '''')
      in if (status response = 403 \<or> status response = 503)
            \<and> (includes_js serverHeader ''cloudflare'' \<or> includes_js serverHeader ''cloudflare-nginx'')
         then includes_js responseText ''cloudflare''
              \<or> includes_js responseText ''cf-browser-verification''
              \<or> includes_js responseText ''window._cf_chl_opt''
              \<or> includes_js responseText ''challenge-platform''
              \<or> includes_js responseText ''cf_clearance''
         else False)"

subsection \<open>fetchWithTimeout and fetchWithRetry\<close>

text \<open>How a call of \<open>fetch\<close> under an abort timer of \<open>timeoutMs\<close> settles: with the
  response or the rejection when that comes first, with \<open>onAbort\<close> otherwise.\<close>

definition settle :: "error \<Rightarrow> nat \<Rightarrow> fetch_outcome \<Rightarrow> error + Response" where
  "settle onAbort timeoutMs out =
     (case out of
        Responds ms r \<Rightarrow> if ms < timeoutMs then Inr r else Inl onAbort
      | Rejects ms msg \<Rightarrow> if ms < timeoutMs then Inl (FetchRejected msg) else Inl onAbort
      | Hangs \<Rightarrow> Inl onAbort)"

text \<open>\<open>fetchWithTimeout\<close>: an abort is rethrown as the request-timeout error, any
  other rejection as it is.\<close>

definition fetchWithTimeout :: "string \<Rightarrow> nat \<Rightarrow> world \<Rightarrow> (error + Response) \<times> world" where
  "fetchWithTimeout url timeoutMs w =
     (case fetch url w of (out, w') \<Rightarrow> (settle RequestTimeout timeoutMs out, w'))"

text \<open>The \<open>config\<close> argument of \<open>fetchWithRetry\<close> with its defaults; the optional
  \<open>onRetry\<close> callback is \<open>null\<close>.\<close>

record RetryConfig =
  maxRetries :: nat
  timeoutMs :: nat
  checkCloudflare :: bool

definition TIMEOUTS_CALL :: nat where
  "TIMEOUTS_CALL = 120000"

definition default_config :: RetryConfig where
  "default_config = \<lparr> maxRetries = 3, timeoutMs = TIMEOUTS_CALL, checkCloudflare = True \<rparr>"

text \<open>How the \<open>try\<close> block of one loop iteration ends.\<close>

datatype attempt_end = Return Response | Continue | Throw error

text \<open>The \<open>try\<close> block of \<open>fetchWithRetry\<close> at iteration \<open>attempt\<close>
  (\<open>attempt < maxRetries - 1\<close> is written \<open>Suc attempt < maxRetries\<close>).\<close>

definition try_block :: "RetryConfig \<Rightarrow> string \<Rightarrow> nat \<Rightarrow> world \<Rightarrow> attempt_end \<times> world" where
  "try_block cfg url attempt w =
     (case fetchWithTimeout url (timeoutMs cfg) w of
        (Inl e, w1) \<Rightarrow> (Throw e, w1)
      | (Inr response, w1) \<Rightarrow>
          if checkCloudflare cfg \<and> (status response = 403 \<or> status response = 503) then
            if isCloudflareChallenge response (body response) then
              if Suc attempt < maxRetries cfg
              then (Continue, sleep (2 ^ (attempt + 1) * 1000) w1)
              else (Throw CloudflareNotBypassed, w1)
            else (Return response, w1)
          else (Return response, w1))"

text \<open>The \<open>catch\<close> block: remember the error, back off unless this was the last
  attempt.\<close>

definition catch_block :: "RetryConfig \<Rightarrow> nat \<Rightarrow> world \<Rightarrow> world" where
  "catch_block cfg attempt w =
     (if Suc attempt < maxRetries cfg then sleep (2 ^ attempt * 1000) w else w)"

function retry_loop ::
  "RetryConfig \<Rightarrow> string \<Rightarrow> nat \<Rightarrow> error option \<Rightarrow> world \<Rightarrow> (error + Response) \<times> world" where
  "retry_loop cfg url attempt lastError w =
     (if attempt < maxRetries cfg then
        (case try_block cfg url attempt w of
           (Return response, w1) \<Rightarrow> (Inr response, w1)
         | (Continue, w1) \<Rightarrow> retry_loop cfg url (Suc attempt) lastError w1
         | (Throw e, w1) \<Rightarrow>
             retry_loop cfg url (Suc attempt) (Some e) (catch_block cfg attempt w1))
      else (Inl (case lastError of Some e \<Rightarrow> e | None \<Rightarrow> AllAttemptsFailed), w))"
  by pat_completeness auto
termination
  by (relation "measure (\<lambda>(cfg, url, attempt, lastError, w). maxRetries cfg - attempt)") auto

declare retry_loop.simps [simp del]

definition fetchWithRetry :: "string \<Rightarrow> RetryConfig \<Rightarrow> world \<Rightarrow> (error + Response) \<times> world" where
  "fetchWithRetry url cfg w = retry_loop cfg url 0 None w"

text \<open>\<open>GET\<close> builds the headers and options and calls \<open>fetchWithRetry\<close>; the remote
  side of the model answers by URL, so the headers do not appear.\<close>

definition GET :: "string \<Rightarrow> RetryConfig \<Rightarrow> world \<Rightarrow> (error + Response) \<times> world" where
  "GET url cfg w = fetchWithRetry url cfg w"

subsection \<open>JSON values and parseJSON\<close>

text \<open>The values that \<open>JSON.parse\<close> returns, \<open>undefined\<close>, and a function (named),
  which a property read can yield when the member is inherited from a prototype.\<close>

datatype jsval =
    JUndefined | JNull | JBool bool | JNum int | JStr string
  | JArr "jsval list" | JObj "(string \<times> jsval) list" | JFun string

fun truthy :: "jsval \<Rightarrow> bool" where
  "truthy JUndefined = False"
| "truthy JNull = False"
| "truthy (JBool b) = b"
| "truthy (JNum n) = (n \<noteq> 0)"
| "truthy (JStr s) = (s \<noteq> [])"
| "truthy (JArr xs) = True"
| "truthy (JObj kvs) = True"
| "truthy (JFun f) = True"

definition js_or :: "jsval \<Rightarrow> jsval \<Rightarrow> jsval" where
  "js_or a b = (if truthy a then a else b)"

text \<open>Property read \<open>item.key\<close>, for the keys that the module reads from parsed JSON
  (\<open>url\<close>, \<open>link\<close>, \<open>src\<close>, \<open>title\<close>, \<open>name\<close>, \<open>description\<close>, \<open>synopsis\<close>,
  \<open>image\<close>, \<open>thumbnail\<close>, \<open>cover\<close>, \<open>author\<close>, \<open>status\<close>, \<open>type\<close>): a \<open>TypeError\<close>
  on \<open>null\<close> and \<open>undefined\<close>, the member of an object, and \<open>undefined\<close> otherwise,
  except that \<open>link\<close> of a string is the method \<open>String.prototype.link\<close>, the only one
  of these keys that a prototype defines.\<close>

fun get_prop :: "jsval \<Rightarrow> string \<Rightarrow> error + jsval" where
  "get_prop JUndefined k = Inl TypeError"
| "get_prop JNull k = Inl TypeError"
| "get_prop (JObj kvs) k = Inr (case map_of kvs k of Some v \<Rightarrow> v | None \<Rightarrow> JUndefined)"
| "get_prop (JStr s) k = Inr (if k = ''link'' then JFun ''link'' else JUndefined)"
| "get_prop v k = Inr JUndefined"

text \<open>\<open>parseJSON\<close>; the platform's \<open>JSON.parse\<close> is the parameter \<open>parse\<close>
  (\<open>None\<close> when it throws).\<close>

definition parseJSON :: "(string \<Rightarrow> jsval option) \<Rightarrow> Response \<Rightarrow> error + jsval" where
  "parseJSON parse response =
     (if \<not> ok response then Inl (HttpStatusError (status response))
      else if body response = [] \<or> trim (body response) = [] then Inr JNull
      else (case parse (body response) of
              Some v \<Rightarrow> Inr v
            | None \<Rightarrow> Inl JsonParseError))"


section \<open>Xbato search (xbatoService)\<close>

definition XBATO_API_BASE :: string where
  "XBATO_API_BASE = ''https://xbato-api.hanifu.id''"

text \<open>\<open>encodeURIComponent\<close> on Latin-1 code units: the unreserved characters stay,
  every other one is written as the percent-escaped bytes of its UTF-8 encoding.\<close>

definition uri_unreserved :: "char \<Rightarrow> bool" where
  "uri_unreserved c =
     (let n = (of_char c :: nat) in
        (65 \<le> n \<and> n \<le> 90) \<or> (97 \<le> n \<and> n \<le> 122) \<or> (48 \<le> n \<and> n \<le> 57)
        \<or> c \<in> set ''-_.!~*'()'')"

definition percent_byte :: "nat \<Rightarrow> string" where
  "percent_byte b = [CHR ''%'', ''0123456789ABCDEF'' ! (b div 16), ''0123456789ABCDEF'' ! (b mod 16)]"

definition encode_char :: "char \<Rightarrow> string" where
  "encode_char c =
     (let n = (of_char c :: nat) in
      if uri_unreserved c then [c]
      else if n < 128 then percent_byte n
      else percent_byte (192 + n div 64) @ percent_byte (128 + n mod 64))"

definition encodeURIComponent :: "string \<Rightarrow> string" where
  "encodeURIComponent s = concat (map encode_char s)"

definition xbato_config :: RetryConfig where
  "xbato_config = \<lparr> maxRetries = 2, timeoutMs = TIMEOUTS_CALL, checkCloudflare = False \<rparr>"

definition fetchXbatoApi ::
  "(string \<Rightarrow> jsval option) \<Rightarrow> string \<Rightarrow> world \<Rightarrow> (error + jsval) \<times> world" where
  "fetchXbatoApi parse url w =
     (case GET url xbato_config w of
        (Inl e, w') \<Rightarrow> (Inl e, w')
      | (Inr response, w') \<Rightarrow> (parseJSON parse response, w'))"

text \<open>The object built from one item of the result array.\<close>

definition search_item :: "jsval \<Rightarrow> error + jsval" where
  "search_item item =
     (case get_prop item ''url'' of
        Inl e \<Rightarrow> Inl e
      | Inr url \<Rightarrow>
         (let get = (\<lambda>k. case get_prop item k of Inr v \<Rightarrow> v | Inl e \<Rightarrow> JUndefined);
              link = js_or url (get ''link'')
          in Inr (JObj
               [(''id'', link),
                (''title'', js_or (get ''title'') (get ''name'')),
                (''description'', js_or (js_or (get ''description'') (get ''synopsis'')) (JStr '''')),
                (''coverUrl'', js_or (js_or (js_or (get ''image'') (get ''thumbnail'')) (get ''cover'')) JNull),
                (''author'', js_or (get ''author'') JNull),
                (''status'', js_or (get ''status'') (JStr ''unknown'')),
                (''type'', js_or (get ''type'') (JStr ''manga'')),
                (''_originalUrl'', link)])))"

text \<open>\<open>data.map(...)\<close> inside the \<open>try\<close>: the first item that throws ends the map.\<close>

fun map_items :: "jsval list \<Rightarrow> error + jsval list" where
  "map_items [] = Inr []"
| "map_items (item # items) =
     (case search_item item of
        Inl e \<Rightarrow> Inl e
      | Inr r \<Rightarrow> (case map_items items of Inl e \<Rightarrow> Inl e | Inr rs \<Rightarrow> Inr (r # rs)))"

text \<open>\<open>searchXbatoManga\<close>: every exception of the body is caught and answered with
  the empty list.\<close>

definition searchXbatoManga ::
  "(string \<Rightarrow> jsval option) \<Rightarrow> string \<Rightarrow> world \<Rightarrow> jsval list \<times> world" where
  "searchXbatoManga parse query w =
     (if length (trim query) < 3 then ([], w)
      else
        (case fetchXbatoApi parse (XBATO_API_BASE @ ''/search?query='' @ encodeURIComponent query) w of
           (Inl e, w') \<Rightarrow> ([], w')
         | (Inr (JArr items), w') \<Rightarrow>
             (case map_items items of Inl e \<Rightarrow> ([], w') | Inr rs \<Rightarrow> (rs, w'))
         | (Inr other, w') \<Rightarrow> ([], w')))"

text \<open>
  C10: a query whose trimmed length is below 3 is answered with the empty list at once:
  the world comes back as it was, so no request was issued (the request log is
  unchanged) and nothing was waited for.
\<close>

theorem C10_short_query_no_request:
  "length (trim query) < 3 \<Longrightarrow> searchXbatoManga parse query w = ([], w)"
  by (simp add: searchXbatoManga_def)

theorem C10_short_query_no_request_witness:
  "length (trim ''  ab '') < 3
   \<and> searchXbatoManga (\<lambda>s. None) ''  ab '' \<lparr> remote = (\<lambda>n u. Hangs), requests = [], sleeps = [] \<rparr>
       = ([], \<lparr> remote = (\<lambda>n u. Hangs), requests = [], sleeps = [] \<rparr>)"
proof -
  have h: "length (trim ''  ab '') < 3"
    by (simp add: trim_def is_js_space_def)
  from C10_short_query_no_request [OF h] h show ?thesis by blast
qed


section \<open>Bato backend: transport and mirror domains\<close>

definition BATO_DOMAINS :: "string list" where
  "BATO_DOMAINS = [''https://bato.to'', ''https://battwo.com'', ''https://mto.to'']"

text \<open>The module's state: the variable \<open>CURRENT_BATO_URL\<close> (initially
  \<open>BATO_DOMAINS[0]\<close>) beside the world. \<open>BATO_DOMAINS\<close> is a constant.\<close>

record BatoModule =
  CURRENT_BATO_URL :: string
  io :: world

definition bato_init :: "world \<Rightarrow> BatoModule" where
  "bato_init w = \<lparr> CURRENT_BATO_URL = BATO_DOMAINS ! 0, io = w \<rparr>"

text \<open>The inline challenge test of \<open>cloudflareBypassFetch\<close> (four body markers).\<close>

definition bato_challenge :: "Response \<Rightarrow> bool" where
  "bato_challenge response =
     (let serverHeader = (case server response of Some h \<Rightarrow> h | None \<Rightarrow> '''')
      in (status response = 403 \<or> status response = 503)
         \<and> (includes_js (toLowerCase serverHeader) ''cloudflare''
              \<or> includes_js (toLowerCase serverHeader) ''cloudflare-nginx'')
         \<and> (includes_js (body response) ''cloudflare''
              \<or> includes_js (body response) ''cf-browser-verification''
              \<or> includes_js (body response) ''window._cf_chl_opt''
              \<or> includes_js (body response) ''challenge-platform''))"

text \<open>The \<open>try\<close> block of \<open>cloudflareBypassFetch\<close>: \<open>maxRetries = 3\<close>,
  \<open>timeoutMs = 30000\<close>; the abort error of the timer is thrown as it is.\<close>

definition bato_try_block :: "string \<Rightarrow> nat \<Rightarrow> world \<Rightarrow> attempt_end \<times> world" where
  "bato_try_block url attempt w =
     (case fetch url w of
        (out, w1) \<Rightarrow>
          (case settle AbortError 30000 out of
             Inl e \<Rightarrow> (Throw e, w1)
           | Inr response \<Rightarrow>
               if bato_challenge response then (Continue, sleep (2000 * (attempt + 1)) w1)
               else if \<not> ok response \<and> status response \<noteq> 404
               then (Throw (HttpStatusError (status response)), w1)
               else (Return response, w1)))"

function bato_loop ::
  "string \<Rightarrow> nat \<Rightarrow> error option \<Rightarrow> world \<Rightarrow> (error + Response) \<times> world" where
  "bato_loop url attempt lastError w =
     (if attempt < 3 then
        (case bato_try_block url attempt w of
           (Return response, w1) \<Rightarrow> (Inr response, w1)
         | (Continue, w1) \<Rightarrow> bato_loop url (Suc attempt) lastError w1
         | (Throw e, w1) \<Rightarrow>
             bato_loop url (Suc attempt) (Some e)
               (if attempt < 3 - 1 then sleep (2 ^ attempt * 1000) w1 else w1))
      else (Inl (case lastError of Some e \<Rightarrow> e | None \<Rightarrow> AllAttemptsFailed), w))"
  by pat_completeness auto
termination
  by (relation "measure (\<lambda>(url, attempt, lastError, w). 3 - attempt)") auto

declare bato_loop.simps [simp del]

definition cloudflareBypassFetch :: "string \<Rightarrow> world \<Rightarrow> (error + Response) \<times> world" where
  "cloudflareBypassFetch url w = bato_loop url 0 None w"

text \<open>The \<open>for (const domain of ...)\<close> loop of \<open>tryBatoDomains\<close> over the domains
  still to try; an exception of \<open>cloudflareBypassFetch\<close> and a response that is not
  \<open>ok\<close> both lead to the next domain.\<close>

fun tryDomains :: "string list \<Rightarrow> string \<Rightarrow> BatoModule \<Rightarrow> (error + Response) \<times> BatoModule" where
  "tryDomains [] path st = (Inl AllDomainsFailed, st)"
| "tryDomains (domain # rest) path st =
     (case cloudflareBypassFetch (domain @ path) (io st) of
        (Inr response, w') \<Rightarrow>
          if ok response
          then (Inr response, st\<lparr> CURRENT_BATO_URL := domain, io := w' \<rparr>)
          else tryDomains rest path (st\<lparr> io := w' \<rparr>)
      | (Inl e, w') \<Rightarrow> tryDomains rest path (st\<lparr> io := w' \<rparr>))"

definition tryBatoDomains :: "string \<Rightarrow> BatoModule \<Rightarrow> (error + Response) \<times> BatoModule" where
  "tryBatoDomains path st = tryDomains BATO_DOMAINS path st"

section \<open>Properties of the transport\<close>

subsection \<open>Blocked attempts (fetchWithRetry)\<close>

lemma startsWith_append: "startsWith s (p @ q) \<Longrightarrow> startsWith s p"
proof -
  assume a: "startsWith s (p @ q)"
  have "take (length p) s = take (length p) (take (length (p @ q)) s)"
    by (simp add: min_def)
  also have "\<dots> = take (length p) (p @ q)"
    using a by (simp add: startsWith_def)
  finally show ?thesis by (simp add: startsWith_def)
qed

lemma includes_js_append: "includes_js s (p @ q) \<Longrightarrow> includes_js s p"
proof (induction s)
  case Nil
  then show ?case by simp
next
  case (Cons c cs)
  then show ?case using startsWith_append [of "c # cs" p q] by auto
qed

lemma includes_nginx: "includes_js s ''cloudflare-nginx'' \<Longrightarrow> includes_js s ''cloudflare''"
  using includes_js_append [of s "''cloudflare''" "''-nginx''"] by simp

lemma isCloudflareChallenge_iff:
  "isCloudflareChallenge r txt =
     ((status r = 403 \<or> status r = 503)
      \<and> includes_js (toLowerCase (case server r of Some h \<Rightarrow> h | None \<Rightarrow> '''')) ''cloudflare''
      \<and> (\<exists>m \<in> set [''cloudflare'', ''cf-browser-verification'', ''window._cf_chl_opt'',
                        ''challenge-platform'', ''cf_clearance'']. includes_js txt m))"
  unfolding isCloudflareChallenge_def Let_def
  using includes_nginx [of "toLowerCase (case server r of Some h \<Rightarrow> h | None \<Rightarrow> '''')"]
  by (cases "status r = 403 \<or> status r = 503") auto

lemma isCloudflareChallenge_status:
  "isCloudflareChallenge r txt \<Longrightarrow> status r = 403 \<or> status r = 503"
  by (simp add: isCloudflareChallenge_iff)

lemma try_block_blocked:
  assumes "checkCloudflare cfg" "fetch url w = (Responds ms r, w1)" "ms < timeoutMs cfg"
    "isCloudflareChallenge r (body r)"
  shows "try_block cfg url attempt w =
     (if Suc attempt < maxRetries cfg then (Continue, sleep (2 ^ (attempt + 1) * 1000) w1)
      else (Throw CloudflareNotBypassed, w1))"
  using assms isCloudflareChallenge_status [OF assms(4)]
  by (simp add: try_block_def fetchWithTimeout_def settle_def)

lemma retry_loop_blocked:
  assumes "checkCloudflare cfg" "fetch url w = (Responds ms r, w1)" "ms < timeoutMs cfg"
    "isCloudflareChallenge r (body r)" "attempt < maxRetries cfg"
  shows "retry_loop cfg url attempt le w =
     (if Suc attempt < maxRetries cfg
      then retry_loop cfg url (Suc attempt) le (sleep (2 ^ (attempt + 1) * 1000) w1)
      else (Inl CloudflareNotBypassed, w1))"
proof -
  note tb = try_block_blocked [OF assms(1-4), of attempt]
  show ?thesis
  proof (cases "Suc attempt < maxRetries cfg")
    case True
    then show ?thesis using assms(5) tb
      by (subst retry_loop.simps) simp
  next
    case False
    then have "retry_loop cfg url attempt le w
                 = retry_loop cfg url (Suc attempt) (Some CloudflareNotBypassed) (catch_block cfg attempt w1)"
      using assms(5) tb by (subst retry_loop.simps) simp
    also have "\<dots> = (Inl CloudflareNotBypassed, w1)"
      using False by (subst retry_loop.simps) (simp add: catch_block_def)
    finally show ?thesis using False by simp
  qed
qed

lemma retry_loop_success:
  assumes "fetch url w = (Responds ms r, w1)" "ms < timeoutMs cfg"
    "\<not> (checkCloudflare cfg \<and> isCloudflareChallenge r (body r))" "attempt < maxRetries cfg"
  shows "retry_loop cfg url attempt le w = (Inr r, w1)"
  using assms
  by (subst retry_loop.simps)
     (auto simp: try_block_def fetchWithTimeout_def settle_def)


lemma blocked_twice_then_ok:
  assumes b1: "remote w (length (requests w)) url = Responds m1 r1"
      and b2: "remote w (length (requests w) + 1) url = Responds m2 r2"
      and b3: "remote w (length (requests w) + 2) url = Responds m3 r3"
      and t: "m1 < TIMEOUTS_CALL" "m2 < TIMEOUTS_CALL" "m3 < TIMEOUTS_CALL"
      and c1: "isCloudflareChallenge r1 (body r1)"
      and c2: "isCloudflareChallenge r2 (body r2)"
      and g: "status r3 = 200"
  shows "fetchWithRetry url default_config w
           = (Inr r3, w\<lparr> requests := requests w @ [url, url, url],
                           sleeps := sleeps w @ [2000, 4000] \<rparr>)"
proof -
  let ?cfg = default_config
  let ?w1 = "w\<lparr> requests := requests w @ [url] \<rparr>"
  let ?w2 = "w\<lparr> requests := requests w @ [url, url], sleeps := sleeps w @ [2000] \<rparr>"
  let ?w3 = "w\<lparr> requests := requests w @ [url, url, url], sleeps := sleeps w @ [2000, 4000] \<rparr>"
  have cfg: "checkCloudflare ?cfg" "maxRetries ?cfg = 3" "timeoutMs ?cfg = TIMEOUTS_CALL"
    by (simp_all add: default_config_def)
  have f1: "fetch url w = (Responds m1 r1, ?w1)"
    using b1 by (simp add: fetch_def)
  have f2: "fetch url (sleep (2 ^ (0 + 1) * 1000) ?w1) = (Responds m2 r2, ?w2)"
    using b2 by (simp add: fetch_def sleep_def)
  have f3: "fetch url (sleep (2 ^ (1 + 1) * 1000) ?w2) = (Responds m3 r3, ?w3)"
    using b3 by (simp add: fetch_def sleep_def)
  have n3: "\<not> (checkCloudflare ?cfg \<and> isCloudflareChallenge r3 (body r3))"
    using g isCloudflareChallenge_status [of r3 "body r3"] by auto
  have "fetchWithRetry url ?cfg w = retry_loop ?cfg url 0 None w"
    by (simp add: fetchWithRetry_def)
  also have "\<dots> = retry_loop ?cfg url (Suc 0) None (sleep (2 ^ (0 + 1) * 1000) ?w1)"
    using retry_loop_blocked [OF cfg(1) f1 _ c1, of 0 None] t cfg by simp
  also have "\<dots> = retry_loop ?cfg url (Suc (Suc 0)) None (sleep (2 ^ (1 + 1) * 1000) ?w2)"
    using retry_loop_blocked [OF cfg(1) f2 _ c2, of "Suc 0" None] t cfg by simp
  also have "\<dots> = (Inr r3, ?w3)"
    using retry_loop_success [OF f3 _ n3, of "Suc (Suc 0)" None] t cfg by simp
  finally show ?thesis .
qed


definition blocked503 :: Response where
  "blocked503 = \<lparr> status = 503, server = Some ''cloudflare'',
                   body = ''<div id=challenge-platform></div>'' \<rparr>"

definition ok200 :: Response where
  "ok200 = \<lparr> status = 200, server = Some ''cloudflare'', body = ''<html></html>'' \<rparr>"

text \<open>A server that answers the first two requests with the challenge page and every
  later one with 200.\<close>

definition blocked_twice :: world where
  "blocked_twice =
     \<lparr> remote = (\<lambda>n url. if n < 2 then Responds 50 blocked503 else Responds 50 ok200),
       requests = [], sleeps = [] \<rparr>"

text \<open>
  C4: a response with status 403 or 503, a \<open>server\<close> header that contains
  \<open>cloudflare\<close> and one of the challenge markers in its body is what
  \<open>isCloudflareChallenge\<close> accepts. With \<open>checkCloudflare\<close> on (the default), an
  attempt that ends so sleeps \<open>2 ^ (attempt + 1)\<close> seconds and goes on with the next
  attempt while one is left, and fails with the challenge error at the last one. A server
  that answers blocked, blocked, 200 makes \<open>fetchWithRetry\<close> under its default
  configuration return the third response after three requests and two waits, of 2000
  and 4000 milliseconds.
\<close>

theorem C4_blocked_backoff:
  "(isCloudflareChallenge r txt \<longleftrightarrow>
      (status r = 403 \<or> status r = 503)
      \<and> includes_js (toLowerCase (case server r of Some h \<Rightarrow> h | None \<Rightarrow> '''')) ''cloudflare''
      \<and> (\<exists>m \<in> set [''cloudflare'', ''cf-browser-verification'', ''window._cf_chl_opt'',
                        ''challenge-platform'', ''cf_clearance'']. includes_js txt m))
   \<and> (checkCloudflare cfg \<and> fetch url w = (Responds ms r, w1) \<and> ms < timeoutMs cfg
        \<and> isCloudflareChallenge r (body r) \<and> attempt < maxRetries cfg
      \<longrightarrow> retry_loop cfg url attempt lastError w =
            (if Suc attempt < maxRetries cfg
             then retry_loop cfg url (Suc attempt) lastError (sleep (2 ^ (attempt + 1) * 1000) w1)
             else (Inl CloudflareNotBypassed, w1)))
   \<and> (remote v (length (requests v)) u = Responds m1 r1
        \<and> remote v (length (requests v) + 1) u = Responds m2 r2
        \<and> remote v (length (requests v) + 2) u = Responds m3 r3
        \<and> m1 < TIMEOUTS_CALL \<and> m2 < TIMEOUTS_CALL \<and> m3 < TIMEOUTS_CALL
        \<and> isCloudflareChallenge r1 (body r1) \<and> isCloudflareChallenge r2 (body r2)
        \<and> status r3 = 200
      \<longrightarrow> fetchWithRetry u default_config v
            = (Inr r3, v\<lparr> requests := requests v @ [u, u, u], sleeps := sleeps v @ [2000, 4000] \<rparr>)
          \<and> slept (snd (fetchWithRetry u default_config v)) = slept v + (2000 + 4000))"
proof (intro conjI impI)
  show "isCloudflareChallenge r txt \<longleftrightarrow>
      (status r = 403 \<or> status r = 503)
      \<and> includes_js (toLowerCase (case server r of Some h \<Rightarrow> h | None \<Rightarrow> '''')) ''cloudflare''
      \<and> (\<exists>m \<in> set [''cloudflare'', ''cf-browser-verification'', ''window._cf_chl_opt'',
                        ''challenge-platform'', ''cf_clearance'']. includes_js txt m)"
    by (rule isCloudflareChallenge_iff)
next
  assume "checkCloudflare cfg \<and> fetch url w = (Responds ms r, w1) \<and> ms < timeoutMs cfg
        \<and> isCloudflareChallenge r (body r) \<and> attempt < maxRetries cfg"
  then show "retry_loop cfg url attempt lastError w =
            (if Suc attempt < maxRetries cfg
             then retry_loop cfg url (Suc attempt) lastError (sleep (2 ^ (attempt + 1) * 1000) w1)
             else (Inl CloudflareNotBypassed, w1))"
    using retry_loop_blocked by blast
next
  assume a: "remote v (length (requests v)) u = Responds m1 r1
        \<and> remote v (length (requests v) + 1) u = Responds m2 r2
        \<and> remote v (length (requests v) + 2) u = Responds m3 r3
        \<and> m1 < TIMEOUTS_CALL \<and> m2 < TIMEOUTS_CALL \<and> m3 < TIMEOUTS_CALL
        \<and> isCloudflareChallenge r1 (body r1) \<and> isCloudflareChallenge r2 (body r2)
        \<and> status r3 = 200"
  then have e: "fetchWithRetry u default_config v
            = (Inr r3, v\<lparr> requests := requests v @ [u, u, u], sleeps := sleeps v @ [2000, 4000] \<rparr>)"
    using blocked_twice_then_ok by blast
  show "fetchWithRetry u default_config v
            = (Inr r3, v\<lparr> requests := requests v @ [u, u, u], sleeps := sleeps v @ [2000, 4000] \<rparr>)"
    by (rule e)
  show "slept (snd (fetchWithRetry u default_config v)) = slept v + (2000 + 4000)"
    by (simp add: e slept_def)
qed

lemma blocked503_challenge: "isCloudflareChallenge blocked503 (body blocked503)"
  by (simp add: isCloudflareChallenge_def blocked503_def toLowerCase_def lower_char_def
        startsWith_def)

theorem C4_blocked_backoff_witness:
  "fetchWithRetry ''https://example.org/'' default_config blocked_twice
     = (Inr ok200, blocked_twice\<lparr> requests := replicate 3 ''https://example.org/'',
                                   sleeps := [2000, 4000] \<rparr>)
   \<and> slept (snd (fetchWithRetry ''https://example.org/'' default_config blocked_twice)) = 6000
   \<and> retry_loop default_config ''https://example.org/'' 2 None blocked_twice
     = (Inl CloudflareNotBypassed, blocked_twice\<lparr> requests := [''https://example.org/''] \<rparr>)"
proof -
  let ?u = "''https://example.org/''"
  have c: "isCloudflareChallenge blocked503 (body blocked503)"
    by (rule blocked503_challenge)
  have s: "status ok200 = 200" by (simp add: ok200_def)
  have r: "remote blocked_twice (length (requests blocked_twice)) ?u = Responds 50 blocked503"
          "remote blocked_twice (length (requests blocked_twice) + 1) ?u = Responds 50 blocked503"
          "remote blocked_twice (length (requests blocked_twice) + 2) ?u = Responds 50 ok200"
    by (simp_all add: blocked_twice_def)
  have t: "(50::nat) < TIMEOUTS_CALL" by (simp add: TIMEOUTS_CALL_def)
  have f: "fetch ?u blocked_twice
             = (Responds 50 blocked503, blocked_twice\<lparr> requests := [?u] \<rparr>)"
    by (simp add: fetch_def blocked_twice_def)
  have g: "checkCloudflare default_config" "50 < timeoutMs default_config"
          "2 < maxRetries default_config" "\<not> Suc 2 < maxRetries default_config"
    by (simp_all add: default_config_def TIMEOUTS_CALL_def)
  note inst = C4_blocked_backoff [of blocked503 "body blocked503" default_config ?u blocked_twice 50
        "blocked_twice\<lparr> requests := [?u] \<rparr>" 2 None blocked_twice ?u 50 blocked503 50 blocked503
        50 ok200]
  from inst r t c s have
    "fetchWithRetry ?u default_config blocked_twice
       = (Inr ok200, blocked_twice\<lparr> requests := requests blocked_twice @ [?u, ?u, ?u],
                                      sleeps := sleeps blocked_twice @ [2000, 4000] \<rparr>)"
    and "slept (snd (fetchWithRetry ?u default_config blocked_twice))
          = slept blocked_twice + (2000 + 4000)"
    by blast+
  moreover from inst f g c have
    "retry_loop default_config ?u 2 None blocked_twice
       = (Inl CloudflareNotBypassed, blocked_twice\<lparr> requests := [?u] \<rparr>)"
    by simp
  ultimately show ?thesis
    by (simp add: blocked_twice_def slept_def numeral_3_eq_3)
qed

subsection \<open>Ordinary failures\<close>












text \<open>A server that is never reached.\<close>

definition unreachable :: world where
  "unreachable =
     \<lparr> remote = (\<lambda>n url. Rejects 5 ''Network request failed''), requests = [], sleeps = [] \<rparr>"





subsection \<open>Mirror domains (tryBatoDomains)\<close>

lemma bato_try_block_world:
  "bato_try_block url attempt w = (r, w1) \<Longrightarrow>
     requests w1 = requests w @ [url] \<and> remote w1 = remote w"
  by (auto simp: bato_try_block_def fetch_def sleep_def split: sum.splits if_splits)

lemma bato_loop_world:
  "bato_loop url attempt lastError w = (res, w') \<Longrightarrow>
     \<exists>n. n \<le> 3 - attempt \<and> (attempt < 3 \<longrightarrow> 1 \<le> n)
         \<and> requests w' = requests w @ replicate n url \<and> remote w' = remote w"
proof (induction url attempt lastError w arbitrary: res w' rule: bato_loop.induct)
  case (1 url attempt lastError w)
  show ?case
  proof (cases "attempt < 3")
    case False
    with "1.prems" show ?thesis
      by (subst (asm) bato_loop.simps) auto
  next
    case True
    obtain a w1 where tb: "bato_try_block url attempt w = (a, w1)"
      by (cases "bato_try_block url attempt w")
    note w1 = bato_try_block_world [OF tb]
    show ?thesis
    proof (cases a)
      case (Return response)
      with "1.prems" True tb have "w' = w1"
        by (subst (asm) bato_loop.simps) simp
      with w1 True show ?thesis
        by (intro exI [of _ 1]) simp
    next
      case Continue
      with "1.prems" True tb have "bato_loop url (Suc attempt) lastError w1 = (res, w')"
        by (subst (asm) bato_loop.simps) simp
      from "1.IH"(1) [OF True tb [symmetric] Continue this]
      obtain n where "n \<le> 3 - Suc attempt" "requests w' = requests w1 @ replicate n url"
        "remote w' = remote w1" by auto
      with w1 True show ?thesis
        by (intro exI [of _ "Suc n"]) (simp add: replicate_append_same)
    next
      case (Throw e)
      let ?w2 = "if attempt < 3 - 1 then sleep (2 ^ attempt * 1000) w1 else w1"
      from Throw "1.prems" True tb have "bato_loop url (Suc attempt) (Some e) ?w2 = (res, w')"
        by (subst (asm) bato_loop.simps) simp
      from "1.IH"(2) [OF True tb [symmetric] Throw this]
      obtain n where "n \<le> 3 - Suc attempt" "requests w' = requests ?w2 @ replicate n url"
        "remote w' = remote ?w2" by auto
      with w1 True show ?thesis
        by (intro exI [of _ "Suc n"]) (simp add: replicate_append_same sleep_def)
    qed
  qed
qed

lemma cloudflareBypassFetch_world:
  "cloudflareBypassFetch url w = (res, w') \<Longrightarrow>
     \<exists>n. 1 \<le> n \<and> n \<le> 3 \<and> requests w' = requests w @ replicate n url \<and> remote w' = remote w"
  using bato_loop_world [of url 0 None w res w'] by (auto simp: cloudflareBypassFetch_def)


text \<open>The requests of one call: the domains are asked in list order, each between one
  and three times, up to the domain that answered \<open>ok\<close>.\<close>

definition domain_requests :: "string list \<Rightarrow> nat list \<Rightarrow> string \<Rightarrow> string list" where
  "domain_requests ds ns path = concat (map (\<lambda>(d, n). replicate n (d @ path)) (zip ds ns))"

lemma tryDomains_trace:
  "tryDomains ds path st = (res, st') \<Longrightarrow>
     \<exists>ns. length ns \<le> length ds \<and> (\<forall>n \<in> set ns. 1 \<le> n \<and> n \<le> 3)
        \<and> requests (io st') = requests (io st) @ domain_requests ds ns path
        \<and> remote (io st') = remote (io st)
        \<and> (case res of
              Inr r \<Rightarrow> ok r \<and> ns \<noteq> [] \<and> CURRENT_BATO_URL st' = ds ! (length ns - 1)
            | Inl e \<Rightarrow> e = AllDomainsFailed \<and> length ns = length ds
                       \<and> CURRENT_BATO_URL st' = CURRENT_BATO_URL st)"
proof (induction ds arbitrary: st res st')
  case Nil
  then show ?case by (auto simp: domain_requests_def)
next
  case (Cons d ds)
  obtain a w1 where cf: "cloudflareBypassFetch (d @ path) (io st) = (a, w1)"
    by (cases "cloudflareBypassFetch (d @ path) (io st)")
  from cloudflareBypassFetch_world [OF cf]
  obtain n where n: "1 \<le> n" "n \<le> 3" "requests w1 = requests (io st) @ replicate n (d @ path)"
    "remote w1 = remote (io st)" by auto
  show ?case
  proof (cases "\<exists>r. a = Inr r \<and> ok r")
    case True
    then obtain r where r: "a = Inr r" "ok r" by auto
    with Cons.prems cf have "res = Inr r" "st' = st\<lparr> CURRENT_BATO_URL := d, io := w1 \<rparr>"
      by simp_all
    with n r show ?thesis
      by (intro exI [of _ "[n]"]) (simp add: domain_requests_def)
  next
    case False
    with Cons.prems cf have "tryDomains ds path (st\<lparr> io := w1 \<rparr>) = (res, st')"
      by (cases a) (auto split: if_splits)
    from Cons.IH [OF this]
    obtain ns where ns0: "length ns \<le> length ds" "\<forall>n \<in> set ns. 1 \<le> n \<and> n \<le> 3"
      "requests (io st') = requests (io (st\<lparr> io := w1 \<rparr>)) @ domain_requests ds ns path"
      "remote (io st') = remote (io (st\<lparr> io := w1 \<rparr>))"
      "(case res of
              Inr r \<Rightarrow> ok r \<and> ns \<noteq> [] \<and> CURRENT_BATO_URL st' = ds ! (length ns - 1)
            | Inl e \<Rightarrow> e = AllDomainsFailed \<and> length ns = length ds
                       \<and> CURRENT_BATO_URL st' = CURRENT_BATO_URL (st\<lparr> io := w1 \<rparr>))"
      by blast
    have ns: "length ns \<le> length ds" "\<forall>n \<in> set ns. 1 \<le> n \<and> n \<le> 3"
      "requests (io st') = requests w1 @ domain_requests ds ns path"
      "remote (io st') = remote w1"
      "(case res of
              Inr r \<Rightarrow> ok r \<and> ns \<noteq> [] \<and> CURRENT_BATO_URL st' = ds ! (length ns - 1)
            | Inl e \<Rightarrow> e = AllDomainsFailed \<and> length ns = length ds
                       \<and> CURRENT_BATO_URL st' = CURRENT_BATO_URL st)"
      using ns0 by (simp_all split: sum.splits)
    show ?thesis
    proof (intro exI [of _ "n # ns"] conjI)
      show "length (n # ns) \<le> length (d # ds)" using ns(1) by simp
      show "\<forall>n \<in> set (n # ns). 1 \<le> n \<and> n \<le> 3" using ns(2) n by simp
      show "requests (io st') = requests (io st) @ domain_requests (d # ds) (n # ns) path"
        using ns(3) n(3) by (simp add: domain_requests_def)
      show "remote (io st') = remote (io st)" using ns(4) n(4) by simp
      show "case res of
              Inr r \<Rightarrow> ok r \<and> n # ns \<noteq> [] \<and> CURRENT_BATO_URL st' = (d # ds) ! (length (n # ns) - 1)
            | Inl e \<Rightarrow> e = AllDomainsFailed \<and> length (n # ns) = length (d # ds)
                       \<and> CURRENT_BATO_URL st' = CURRENT_BATO_URL st"
        using ns(5) by (cases res) (auto simp: nth_Cons split: nat.splits)
    qed
  qed
qed

text \<open>The world in which a domain is asked is the one that the calls of
  \<open>cloudflareBypassFetch\<close> for the domains before it have left behind, one after the
  other; a domain answers when its call returns a response that is \<open>ok\<close>.\<close>

fun world_after :: "string list \<Rightarrow> string \<Rightarrow> world \<Rightarrow> world" where
  "world_after [] path w = w"
| "world_after (domain # rest) path w =
     world_after rest path (snd (cloudflareBypassFetch (domain @ path) w))"

definition answers_ok :: "string \<Rightarrow> string \<Rightarrow> world \<Rightarrow> bool" where
  "answers_ok domain path w =
     (case fst (cloudflareBypassFetch (domain @ path) w) of
        Inr response \<Rightarrow> ok response
      | Inl e \<Rightarrow> False)"

lemma world_after_snoc:
  "world_after (ds @ [d]) path w
     = snd (cloudflareBypassFetch (d @ path) (world_after ds path w))"
  by (induction ds arbitrary: w) simp_all

text \<open>The loop stops at the first domain that answers, returns the response of that
  call and stores the domain; the domains before it have all been asked.\<close>

lemma tryDomains_first_ok:
  assumes "k < length ds"
    and "\<forall>i<k. \<not> answers_ok (ds ! i) path (world_after (take i ds) path (io st))"
    and "answers_ok (ds ! k) path (world_after (take k ds) path (io st))"
  shows "tryDomains ds path st =
           (fst (cloudflareBypassFetch (ds ! k @ path) (world_after (take k ds) path (io st))),
            st\<lparr> CURRENT_BATO_URL := ds ! k,
                io := world_after (take (Suc k) ds) path (io st) \<rparr>)"
  using assms
proof (induction ds arbitrary: k st)
  case Nil
  then show ?case by simp
next
  case (Cons d ds)
  obtain a w1 where cf: "cloudflareBypassFetch (d @ path) (io st) = (a, w1)"
    by (cases "cloudflareBypassFetch (d @ path) (io st)")
  show ?case
  proof (cases k)
    case 0
    with Cons.prems(3) cf obtain r where "a = Inr r" "ok r"
      by (auto simp: answers_ok_def split: sum.splits)
    with 0 cf show ?thesis by simp
  next
    case (Suc j)
    from Cons.prems(2) Suc have "\<not> answers_ok d path (io st)"
      by (auto dest: spec [of _ 0])
    with cf have next_domain:
      "tryDomains (d # ds) path st = tryDomains ds path (st\<lparr> io := w1 \<rparr>)"
      by (auto simp: answers_ok_def split: sum.splits)
    have j: "j < length ds" using Cons.prems(1) Suc by simp
    have before: "\<forall>i<j. \<not> answers_ok (ds ! i) path
                      (world_after (take i ds) path (io (st\<lparr> io := w1 \<rparr>)))"
    proof (intro allI impI)
      fix i assume "i < j"
      then have "Suc i < k" using Suc by simp
      with Cons.prems(2) have
        "\<not> answers_ok ((d # ds) ! Suc i) path (world_after (take (Suc i) (d # ds)) path (io st))"
        by blast
      then show "\<not> answers_ok (ds ! i) path (world_after (take i ds) path (io (st\<lparr> io := w1 \<rparr>)))"
        using cf by simp
    qed
    have at: "answers_ok (ds ! j) path (world_after (take j ds) path (io (st\<lparr> io := w1 \<rparr>)))"
      using Cons.prems(3) Suc cf by simp
    from Cons.IH [OF j before at] next_domain Suc cf show ?thesis by simp
  qed
qed

lemma tryDomains_none_ok:
  assumes "\<forall>i<length ds. \<not> answers_ok (ds ! i) path (world_after (take i ds) path (io st))"
  shows "tryDomains ds path st =
           (Inl AllDomainsFailed, st\<lparr> io := world_after ds path (io st) \<rparr>)"
  using assms
proof (induction ds arbitrary: st)
  case Nil
  then show ?case by simp
next
  case (Cons d ds)
  obtain a w1 where cf: "cloudflareBypassFetch (d @ path) (io st) = (a, w1)"
    by (cases "cloudflareBypassFetch (d @ path) (io st)")
  from Cons.prems have "\<not> answers_ok d path (io st)"
    by (auto dest: spec [of _ 0])
  with cf have next_domain:
    "tryDomains (d # ds) path st = tryDomains ds path (st\<lparr> io := w1 \<rparr>)"
    by (auto simp: answers_ok_def split: sum.splits)
  have "\<forall>i<length ds. \<not> answers_ok (ds ! i) path
            (world_after (take i ds) path (io (st\<lparr> io := w1 \<rparr>)))"
  proof (intro allI impI)
    fix i assume "i < length ds"
    then have "Suc i < length (d # ds)" by simp
    with Cons.prems have
      "\<not> answers_ok ((d # ds) ! Suc i) path (world_after (take (Suc i) (d # ds)) path (io st))"
      by blast
    then show "\<not> answers_ok (ds ! i) path (world_after (take i ds) path (io (st\<lparr> io := w1 \<rparr>)))"
      using cf by simp
  qed
  from Cons.IH [OF this] next_domain cf show ?case by simp
qed

text \<open>Either some domain is the first to answer, or none does.\<close>

lemma first_answer_cases:
  obtains (answer) k where "k < length ds"
      "\<forall>i<k. \<not> answers_ok (ds ! i) path (world_after (take i ds) path w)"
      "answers_ok (ds ! k) path (world_after (take k ds) path w)"
    | (none) "\<forall>i<length ds. \<not> answers_ok (ds ! i) path (world_after (take i ds) path w)"
proof (cases "\<exists>k<length ds. answers_ok (ds ! k) path (world_after (take k ds) path w)")
  case True
  define k where "k = (LEAST k. k < length ds
      \<and> answers_ok (ds ! k) path (world_after (take k ds) path w))"
  from True obtain k0 where
    "k0 < length ds \<and> answers_ok (ds ! k0) path (world_after (take k0 ds) path w)"
    by blast
  then have "k < length ds \<and> answers_ok (ds ! k) path (world_after (take k ds) path w)"
    unfolding k_def by (rule LeastI)
  moreover have "\<forall>i<k. \<not> answers_ok (ds ! i) path (world_after (take i ds) path w)"
  proof (intro allI impI)
    fix i assume "i < k"
    then have "\<not> (i < length ds \<and> answers_ok (ds ! i) path (world_after (take i ds) path w))"
      unfolding k_def by (rule not_less_Least)
    moreover have "i < length ds"
      using \<open>i < k\<close> \<open>k < length ds \<and> answers_ok (ds ! k) path (world_after (take k ds) path w)\<close>
      by simp
    ultimately show "\<not> answers_ok (ds ! i) path (world_after (take i ds) path w)" by simp
  qed
  ultimately show ?thesis using answer by blast
next
  case False
  then show ?thesis using none by blast
qed

lemma domain_requests_first:
  "ns \<noteq> [] \<Longrightarrow> ds \<noteq> [] \<Longrightarrow> 1 \<le> hd ns \<Longrightarrow>
     \<exists>rest. domain_requests ds ns path = (hd ds @ path) # rest"
  by (cases ns; cases ds; cases "hd ns") (auto simp: domain_requests_def)


text \<open>A world in which only the third mirror answers: requests to the first two
  domains are rejected.\<close>

definition third_mirror_only :: world where
  "third_mirror_only =
     \<lparr> remote = (\<lambda>n url. if startsWith url ''https://mto.to'' then Responds 50 ok200
                          else Rejects 5 ''Network request failed''),
       requests = [], sleeps = [] \<rparr>"

definition after_first_call :: BatoModule where
  "after_first_call = snd (tryBatoDomains ''/search?word=x'' (bato_init third_mirror_only))"

definition after_second_call :: BatoModule where
  "after_second_call = snd (tryBatoDomains ''/search?word=x'' after_first_call)"

lemma first_call:
  "tryBatoDomains ''/search?word=x'' (bato_init third_mirror_only) =
     (Inr ok200,
      \<lparr> CURRENT_BATO_URL = ''https://mto.to'',
        io = third_mirror_only
          \<lparr> requests := replicate 3 ''https://bato.to/search?word=x''
               @ replicate 3 ''https://battwo.com/search?word=x''
               @ [''https://mto.to/search?word=x''],
            sleeps := [1000, 2000, 1000, 2000] \<rparr> \<rparr>)"
  by (simp add: tryBatoDomains_def BATO_DOMAINS_def bato_init_def cloudflareBypassFetch_def
        bato_loop.simps bato_try_block_def fetch_def settle_def sleep_def third_mirror_only_def
        startsWith_def bato_challenge_def ok200_def ok_def numeral_3_eq_3)


lemma after_first_call_eq:
  "after_first_call =
      \<lparr> CURRENT_BATO_URL = ''https://mto.to'',
        io = third_mirror_only
          \<lparr> requests := replicate 3 ''https://bato.to/search?word=x''
               @ replicate 3 ''https://battwo.com/search?word=x''
               @ [''https://mto.to/search?word=x''],
            sleeps := [1000, 2000, 1000, 2000] \<rparr> \<rparr>"
  by (simp only: after_first_call_def first_call snd_conv)

lemma second_call:
  "tryBatoDomains ''/search?word=x'' after_first_call =
     (Inr ok200,
      \<lparr> CURRENT_BATO_URL = ''https://mto.to'',
        io = third_mirror_only
          \<lparr> requests := replicate 3 ''https://bato.to/search?word=x''
               @ replicate 3 ''https://battwo.com/search?word=x''
               @ [''https://mto.to/search?word=x'']
               @ replicate 3 ''https://bato.to/search?word=x''
               @ replicate 3 ''https://battwo.com/search?word=x''
               @ [''https://mto.to/search?word=x''],
            sleeps := [1000, 2000, 1000, 2000, 1000, 2000, 1000, 2000] \<rparr> \<rparr>)"
  by (simp add: after_first_call_eq tryBatoDomains_def BATO_DOMAINS_def cloudflareBypassFetch_def
        bato_loop.simps bato_try_block_def fetch_def settle_def sleep_def third_mirror_only_def
        startsWith_def bato_challenge_def ok200_def ok_def numeral_3_eq_3)

lemma after_second_call_eq:
  "after_second_call =
      \<lparr> CURRENT_BATO_URL = ''https://mto.to'',
        io = third_mirror_only
          \<lparr> requests := replicate 3 ''https://bato.to/search?word=x''
               @ replicate 3 ''https://battwo.com/search?word=x''
               @ [''https://mto.to/search?word=x'']
               @ replicate 3 ''https://bato.to/search?word=x''
               @ replicate 3 ''https://battwo.com/search?word=x''
               @ [''https://mto.to/search?word=x''],
            sleeps := [1000, 2000, 1000, 2000, 1000, 2000, 1000, 2000] \<rparr> \<rparr>"
  by (simp only: after_second_call_def second_call snd_conv)

text \<open>
  C1, as the claim states it, fails in its second half. With the first two mirrors
  unreachable and the third answering, the first call succeeds on the third domain and
  records it in \<open>CURRENT_BATO_URL\<close>; the second call nevertheless attempts the first
  domain first: the request it starts with (the eighth of the log) goes to
  \<open>https://bato.to\<close>.
\<close>

theorem C1_second_call_starts_at_first_domain:
  "fst (tryBatoDomains ''/search?word=x'' (bato_init third_mirror_only)) = Inr ok200
   \<and> CURRENT_BATO_URL after_first_call = ''https://mto.to''
   \<and> length (requests (io after_first_call)) = 7
   \<and> requests (io after_second_call) ! 7 = ''https://bato.to/search?word=x''
   \<and> requests (io after_second_call) ! 7 \<noteq> CURRENT_BATO_URL after_first_call @ ''/search?word=x''"
  by (simp add: after_second_call_eq after_first_call_eq first_call numeral_3_eq_3)

text \<open>A world in which every mirror answers: the call asks the first domain only.\<close>

definition all_mirrors_up :: world where
  "all_mirrors_up = \<lparr> remote = (\<lambda>n url. Responds 50 ok200), requests = [], sleeps = [] \<rparr>"

lemma first_mirror_answers:
  "tryBatoDomains ''/search?word=x'' (bato_init all_mirrors_up) =
     (Inr ok200,
      \<lparr> CURRENT_BATO_URL = ''https://bato.to'',
        io = all_mirrors_up \<lparr> requests := [''https://bato.to/search?word=x''] \<rparr> \<rparr>)"
  by (simp add: tryBatoDomains_def BATO_DOMAINS_def bato_init_def cloudflareBypassFetch_def
        bato_loop.simps bato_try_block_def fetch_def settle_def all_mirrors_up_def
        bato_challenge_def ok200_def ok_def numeral_3_eq_3)

text \<open>
  C1, amended: every call of \<open>tryBatoDomains\<close> asks the domains of the constant list
  \<open>BATO_DOMAINS\<close> in its fixed order, each between one and three times (the attempts of
  \<open>cloudflareBypassFetch\<close>), starting with the first domain whatever
  \<open>CURRENT_BATO_URL\<close> holds, and stops at the first domain that yields an \<open>ok\<close>
  response: there is a position \<open>k\<close> such that no domain before \<open>k\<close> answers in the
  world in which it is asked and, when \<open>k\<close> is a position of the list, the domain at
  \<open>k\<close> answers, the call returns the response of that very fetch, that domain is stored
  in \<open>CURRENT_BATO_URL\<close> (the base for relative URLs) and no later domain is asked.
  When no domain answers, the call fails, all domains having been asked, and
  \<open>CURRENT_BATO_URL\<close> is left as it was. The list itself is never reordered.
\<close>

theorem C1_fixed_order_dispatch:
  "tryBatoDomains path st = (res, st') \<Longrightarrow>
     (\<exists>ns. ns \<noteq> [] \<and> length ns \<le> length BATO_DOMAINS \<and> (\<forall>n \<in> set ns. 1 \<le> n \<and> n \<le> 3)
         \<and> requests (io st') = requests (io st) @ domain_requests BATO_DOMAINS ns path
         \<and> (case res of
               Inr r \<Rightarrow> ok r \<and> CURRENT_BATO_URL st' = BATO_DOMAINS ! (length ns - 1)
             | Inl e \<Rightarrow> e = AllDomainsFailed \<and> length ns = length BATO_DOMAINS
                        \<and> CURRENT_BATO_URL st' = CURRENT_BATO_URL st))
     \<and> requests (io st') ! length (requests (io st)) = ''https://bato.to'' @ path
     \<and> (\<exists>k \<le> length BATO_DOMAINS.
          (\<forall>i<k. \<not> answers_ok (BATO_DOMAINS ! i) path
                     (world_after (take i BATO_DOMAINS) path (io st)))
          \<and> io st' = world_after (take (Suc k) BATO_DOMAINS) path (io st)
          \<and> (if k < length BATO_DOMAINS
             then answers_ok (BATO_DOMAINS ! k) path (world_after (take k BATO_DOMAINS) path (io st))
                  \<and> res = fst (cloudflareBypassFetch (BATO_DOMAINS ! k @ path)
                                 (world_after (take k BATO_DOMAINS) path (io st)))
                  \<and> st' = st\<lparr> CURRENT_BATO_URL := BATO_DOMAINS ! k,
                              io := world_after (take (Suc k) BATO_DOMAINS) path (io st) \<rparr>
             else res = Inl AllDomainsFailed
                  \<and> st' = st\<lparr> io := world_after BATO_DOMAINS path (io st) \<rparr>))"
proof -
  assume call: "tryBatoDomains path st = (res, st')"
  then have td: "tryDomains BATO_DOMAINS path st = (res, st')"
    by (simp add: tryBatoDomains_def)
  from tryDomains_trace [OF td]
  obtain ns where ns: "length ns \<le> length BATO_DOMAINS" "\<forall>n \<in> set ns. 1 \<le> n \<and> n \<le> 3"
      "requests (io st') = requests (io st) @ domain_requests BATO_DOMAINS ns path"
      "(case res of
              Inr r \<Rightarrow> ok r \<and> ns \<noteq> [] \<and> CURRENT_BATO_URL st' = BATO_DOMAINS ! (length ns - 1)
            | Inl e \<Rightarrow> e = AllDomainsFailed \<and> length ns = length BATO_DOMAINS
                       \<and> CURRENT_BATO_URL st' = CURRENT_BATO_URL st)"
    by blast
  have ne: "ns \<noteq> []"
    using ns(4) by (cases res) (auto simp: BATO_DOMAINS_def)
  then have "1 \<le> hd ns" using ns(2) by (cases ns) auto
  from domain_requests_first [OF ne _ this, of BATO_DOMAINS path]
  obtain rest where "domain_requests BATO_DOMAINS ns path = (''https://bato.to'' @ path) # rest"
    by (auto simp: BATO_DOMAINS_def)
  then have first: "requests (io st') ! length (requests (io st)) = ''https://bato.to'' @ path"
    using ns(3) by simp
  have "case res of
               Inr r \<Rightarrow> ok r \<and> CURRENT_BATO_URL st' = BATO_DOMAINS ! (length ns - 1)
             | Inl e \<Rightarrow> e = AllDomainsFailed \<and> length ns = length BATO_DOMAINS
                        \<and> CURRENT_BATO_URL st' = CURRENT_BATO_URL st"
    using ns(4) by (cases res) auto
  with ne ns(1,2,3) have trace:
    "\<exists>ns. ns \<noteq> [] \<and> length ns \<le> length BATO_DOMAINS \<and> (\<forall>n \<in> set ns. 1 \<le> n \<and> n \<le> 3)
         \<and> requests (io st') = requests (io st) @ domain_requests BATO_DOMAINS ns path
         \<and> (case res of
               Inr r \<Rightarrow> ok r \<and> CURRENT_BATO_URL st' = BATO_DOMAINS ! (length ns - 1)
             | Inl e \<Rightarrow> e = AllDomainsFailed \<and> length ns = length BATO_DOMAINS
                        \<and> CURRENT_BATO_URL st' = CURRENT_BATO_URL st)"
    by blast
  have stop: "\<exists>k \<le> length BATO_DOMAINS.
          (\<forall>i<k. \<not> answers_ok (BATO_DOMAINS ! i) path
                     (world_after (take i BATO_DOMAINS) path (io st)))
          \<and> io st' = world_after (take (Suc k) BATO_DOMAINS) path (io st)
          \<and> (if k < length BATO_DOMAINS
             then answers_ok (BATO_DOMAINS ! k) path (world_after (take k BATO_DOMAINS) path (io st))
                  \<and> res = fst (cloudflareBypassFetch (BATO_DOMAINS ! k @ path)
                                 (world_after (take k BATO_DOMAINS) path (io st)))
                  \<and> st' = st\<lparr> CURRENT_BATO_URL := BATO_DOMAINS ! k,
                              io := world_after (take (Suc k) BATO_DOMAINS) path (io st) \<rparr>
             else res = Inl AllDomainsFailed
                  \<and> st' = st\<lparr> io := world_after BATO_DOMAINS path (io st) \<rparr>)"
  proof (cases rule: first_answer_cases [of BATO_DOMAINS path "io st"])
    case (answer k)
    from tryDomains_first_ok [OF answer] td
    have "res = fst (cloudflareBypassFetch (BATO_DOMAINS ! k @ path)
                       (world_after (take k BATO_DOMAINS) path (io st)))"
      and "st' = st\<lparr> CURRENT_BATO_URL := BATO_DOMAINS ! k,
                     io := world_after (take (Suc k) BATO_DOMAINS) path (io st) \<rparr>"
      by simp_all
    with answer show ?thesis
      by (intro exI [of _ k]) simp
  next
    case none
    from tryDomains_none_ok [OF none] td
    have "res = Inl AllDomainsFailed" "st' = st\<lparr> io := world_after BATO_DOMAINS path (io st) \<rparr>"
      by simp_all
    with none show ?thesis
      by (intro exI [of _ "length BATO_DOMAINS"]) simp
  qed
  from trace first stop show ?thesis by blast
qed

text \<open>The theorem at the second call of the scenario, and at the call in the world where
  every mirror answers: there the position is 0, one request is made and the first domain
  is stored.\<close>

theorem C1_fixed_order_dispatch_witness:
  "(\<exists>ns. ns \<noteq> [] \<and> length ns \<le> length BATO_DOMAINS \<and> (\<forall>n \<in> set ns. 1 \<le> n \<and> n \<le> 3)
         \<and> requests (io after_second_call)
             = requests (io after_first_call) @ domain_requests BATO_DOMAINS ns ''/search?word=x''
         \<and> ok ok200 \<and> CURRENT_BATO_URL after_second_call = BATO_DOMAINS ! (length ns - 1))
   \<and> requests (io after_second_call) ! length (requests (io after_first_call))
        = ''https://bato.to/search?word=x''
   \<and> (\<exists>k<length BATO_DOMAINS.
         (\<forall>i<k. \<not> answers_ok (BATO_DOMAINS ! i) ''/search?word=x''
                    (world_after (take i BATO_DOMAINS) ''/search?word=x'' (io after_first_call)))
         \<and> answers_ok (BATO_DOMAINS ! k) ''/search?word=x''
              (world_after (take k BATO_DOMAINS) ''/search?word=x'' (io after_first_call))
         \<and> Inr ok200 = fst (cloudflareBypassFetch (BATO_DOMAINS ! k @ ''/search?word=x'')
              (world_after (take k BATO_DOMAINS) ''/search?word=x'' (io after_first_call)))
         \<and> CURRENT_BATO_URL after_second_call = BATO_DOMAINS ! k)"
proof -
  have call: "tryBatoDomains ''/search?word=x'' after_first_call = (Inr ok200, after_second_call)"
    by (simp only: after_second_call_eq second_call)
  note inst = C1_fixed_order_dispatch [OF call]
  from inst have trace:
    "\<exists>ns. ns \<noteq> [] \<and> length ns \<le> length BATO_DOMAINS \<and> (\<forall>n \<in> set ns. 1 \<le> n \<and> n \<le> 3)
         \<and> requests (io after_second_call)
             = requests (io after_first_call) @ domain_requests BATO_DOMAINS ns ''/search?word=x''
         \<and> ok ok200 \<and> CURRENT_BATO_URL after_second_call = BATO_DOMAINS ! (length ns - 1)"
    by simp
  from inst have first:
    "requests (io after_second_call) ! length (requests (io after_first_call))
        = ''https://bato.to/search?word=x''"
    by simp
  let ?W = "\<lambda>k. world_after (take k BATO_DOMAINS) ''/search?word=x'' (io after_first_call)"
  from inst obtain k where k: "k \<le> length BATO_DOMAINS"
    "\<forall>i<k. \<not> answers_ok (BATO_DOMAINS ! i) ''/search?word=x'' (?W i)"
    and branch: "if k < length BATO_DOMAINS
     then answers_ok (BATO_DOMAINS ! k) ''/search?word=x'' (?W k)
          \<and> Inr ok200 = fst (cloudflareBypassFetch (BATO_DOMAINS ! k @ ''/search?word=x'') (?W k))
          \<and> after_second_call = after_first_call\<lparr> CURRENT_BATO_URL := BATO_DOMAINS ! k,
                io := ?W (Suc k) \<rparr>
     else Inr ok200 = (Inl AllDomainsFailed :: error + Response)
          \<and> after_second_call = after_first_call\<lparr> io := world_after BATO_DOMAINS ''/search?word=x''
                (io after_first_call) \<rparr>"
    by blast
  have lt: "k < length BATO_DOMAINS"
  proof (rule ccontr)
    assume "\<not> k < length BATO_DOMAINS"
    with branch have "Inr ok200 = (Inl AllDomainsFailed :: error + Response)"
      by (simp only: if_False)
    then show False by (simp only: sum.distinct)
  qed
  with branch have b: "answers_ok (BATO_DOMAINS ! k) ''/search?word=x'' (?W k)"
    "Inr ok200 = fst (cloudflareBypassFetch (BATO_DOMAINS ! k @ ''/search?word=x'') (?W k))"
    "after_second_call = after_first_call\<lparr> CURRENT_BATO_URL := BATO_DOMAINS ! k,
                io := ?W (Suc k) \<rparr>"
    by (simp_all only: if_True)
  have "CURRENT_BATO_URL after_second_call = BATO_DOMAINS ! k"
    by (subst b(3)) simp
  with k(2) lt b(1,2) have stop: "\<exists>k<length BATO_DOMAINS.
         (\<forall>i<k. \<not> answers_ok (BATO_DOMAINS ! i) ''/search?word=x'' (?W i))
         \<and> answers_ok (BATO_DOMAINS ! k) ''/search?word=x'' (?W k)
         \<and> Inr ok200 = fst (cloudflareBypassFetch (BATO_DOMAINS ! k @ ''/search?word=x'') (?W k))
         \<and> CURRENT_BATO_URL after_second_call = BATO_DOMAINS ! k"
    by blast
  from trace first stop show ?thesis by (intro conjI)
qed

section \<open>Cache (cacheManager)\<close>

subsection \<open>Memory tier: the MemoryCache class\<close>

text \<open>
  An entry \<open>{value, expiresAt, cachedAt}\<close>; \<open>expiresAt\<close> is \<open>null\<close> when the entry
  was written without a TTL. Times are milliseconds as \<open>Date.now()\<close> reads them. A
  read takes one clock reading (\<open>now\<close>); a write with a TTL takes two, \<open>now_e\<close> for
  \<open>expiresAt\<close> and then \<open>now_c\<close> for \<open>cachedAt\<close>.
\<close>

record 'v CacheEntry =
  entry_value :: 'v
  expiresAt :: "int option"
  cachedAt :: int

text \<open>
  The JavaScript \<open>Map\<close> is a list of key/entry pairs with distinct keys in insertion
  order: \<open>AList.update\<close> replaces the entry of a present key in place and appends a
  new key, \<open>AList.delete\<close> removes a key, the length is \<open>Map.size\<close>.
\<close>

record ('k, 'v) MemoryCache =
  cache :: "('k \<times> 'v CacheEntry) list"
  maxSize :: nat
  accessOrder :: "'k list"

definition new_MemoryCache :: "nat \<Rightarrow> ('k, 'v) MemoryCache" where
  "new_MemoryCache n = \<lparr> cache = [], maxSize = n, accessOrder = [] \<rparr>"

definition cache_has :: "('k, 'v) MemoryCache \<Rightarrow> 'k \<Rightarrow> bool" where
  "cache_has c key = (key \<in> fst ` set (cache c))"

text \<open>\<open>entry.expiresAt && Date.now() > entry.expiresAt\<close>: \<open>null\<close> and \<open>0\<close> are
  falsy.\<close>

definition expired :: "int \<Rightarrow> 'v CacheEntry \<Rightarrow> bool" where
  "expired now entry =
     (case expiresAt entry of None \<Rightarrow> False | Some e \<Rightarrow> e \<noteq> 0 \<and> now > e)"

text \<open>The entry object built by \<open>set\<close> and by \<open>saveToStorage\<close>:
  \<^verbatim>\<open>{ value, expiresAt: ttl ? Date.now() + ttl : null, cachedAt: Date.now() }\<close>. Its
  properties are evaluated in this order, so \<open>expiresAt\<close> is made from the first call of
  \<open>Date.now()\<close> (the reading \<open>now_e\<close>) and \<open>cachedAt\<close> is the second (the reading
  \<open>now_c\<close>). A \<open>null\<close> and a \<open>0\<close> TTL are falsy: the clock is then read for \<open>cachedAt\<close>
  only.\<close>

definition make_entry :: "'v \<Rightarrow> int option \<Rightarrow> int \<Rightarrow> int \<Rightarrow> 'v CacheEntry" where
  "make_entry v ttl now_e now_c =
     \<lparr> entry_value = v,
       expiresAt = (case ttl of None \<Rightarrow> None | Some t \<Rightarrow> if t \<noteq> 0 then Some (now_e + t) else None),
       cachedAt = now_c \<rparr>"

text \<open>\<open>indexOf\<close> and \<open>splice(index, 1)\<close> remove the first occurrence of the key,
  \<open>push\<close> appends it.\<close>

definition touch :: "'k \<Rightarrow> 'k list \<Rightarrow> 'k list" where
  "touch key order = remove1 key order @ [key]"

definition MemoryCache_get ::
  "'k \<Rightarrow> int \<Rightarrow> ('k, 'v) MemoryCache \<Rightarrow> 'v option \<times> ('k, 'v) MemoryCache" where
  "MemoryCache_get key now c =
     (case map_of (cache c) key of
        None \<Rightarrow> (None, c)
      | Some entry \<Rightarrow>
          if expired now entry
          then (None, c\<lparr> cache := AList.delete key (cache c) \<rparr>)
          else (Some (entry_value entry), c\<lparr> accessOrder := touch key (accessOrder c) \<rparr>))"

text \<open>The eviction step of \<open>set\<close>: \<open>accessOrder.shift()\<close> takes the first key of the
  order (nothing when the array is empty) and \<open>cache.delete\<close> removes it from the map.\<close>

definition evict :: "('k, 'v) MemoryCache \<Rightarrow> ('k, 'v) MemoryCache" where
  "evict c =
     (case accessOrder c of
        [] \<Rightarrow> c
      | oldestKey # rest \<Rightarrow> c\<lparr> accessOrder := rest, cache := AList.delete oldestKey (cache c) \<rparr>)"

definition MemoryCache_set ::
  "'k \<Rightarrow> 'v \<Rightarrow> int option \<Rightarrow> int \<Rightarrow> int \<Rightarrow> ('k, 'v) MemoryCache \<Rightarrow> ('k, 'v) MemoryCache" where
  "MemoryCache_set key v ttl now_e now_c c =
     (let c1 = (if length (cache c) \<ge> maxSize c \<and> \<not> cache_has c key then evict c else c)
      in c1\<lparr> cache := AList.update key (make_entry v ttl now_e now_c) (cache c1),
             accessOrder := touch key (accessOrder c1) \<rparr>)"

definition MemoryCache_delete ::
  "'k \<Rightarrow> ('k, 'v) MemoryCache \<Rightarrow> bool \<times> ('k, 'v) MemoryCache" where
  "MemoryCache_delete key c =
     (cache_has c key,
      c\<lparr> accessOrder := remove1 key (accessOrder c), cache := AList.delete key (cache c) \<rparr>)"

definition MemoryCache_clear :: "('k, 'v) MemoryCache \<Rightarrow> ('k, 'v) MemoryCache" where
  "MemoryCache_clear c = c\<lparr> cache := [], accessOrder := [] \<rparr>"

definition MemoryCache_size :: "('k, 'v) MemoryCache \<Rightarrow> nat" where
  "MemoryCache_size c = length (cache c)"

subsection \<open>Persistent tier: getFromStorage and saveToStorage\<close>

text \<open>
  The persistent store maps a key to the stored entry; the entry stands for its JSON
  text (\<open>JSON.parse\<close> of what \<open>JSON.stringify\<close> wrote gives the entry back).
\<close>

type_synonym 'v storage = "string \<rightharpoonup> 'v CacheEntry"

definition getFromStorage :: "string \<Rightarrow> int \<Rightarrow> 'v storage \<Rightarrow> 'v option \<times> 'v storage" where
  "getFromStorage key now st =
     (case st key of
        None \<Rightarrow> (None, st)
      | Some parsed \<Rightarrow>
          if expired now parsed then (None, st(key := None))
          else (Some (entry_value parsed), st))"

definition saveToStorage ::
  "string \<Rightarrow> 'v \<Rightarrow> int option \<Rightarrow> int \<Rightarrow> int \<Rightarrow> 'v storage \<Rightarrow> 'v storage" where
  "saveToStorage key v ttl now_e now_c st = st(key \<mapsto> make_entry v ttl now_e now_c)"

text \<open>The TTLs that the module writes with: \<open>CACHE_EXPIRATION\<close>, in milliseconds. Every
  call of \<open>set\<close> and of \<open>saveToStorage\<close> in the module passes one of them.\<close>

definition CACHE_EXPIRATION_COVERS :: int where
  "CACHE_EXPIRATION_COVERS = 7 * 24 * 60 * 60 * 1000"

definition CACHE_EXPIRATION_CHAPTERS :: int where
  "CACHE_EXPIRATION_CHAPTERS = 24 * 60 * 60 * 1000"

definition CACHE_EXPIRATION_MANGA :: int where
  "CACHE_EXPIRATION_MANGA = 6 * 60 * 60 * 1000"

definition CACHE_EXPIRATION_EXTENSIONS :: int where
  "CACHE_EXPIRATION_EXTENSIONS = 24 * 60 * 60 * 1000"

definition CACHE_EXPIRATION :: "int list" where
  "CACHE_EXPIRATION =
     [CACHE_EXPIRATION_COVERS, CACHE_EXPIRATION_CHAPTERS, CACHE_EXPIRATION_MANGA,
      CACHE_EXPIRATION_EXTENSIONS]"

subsection \<open>Capacity of the memory tier\<close>

datatype ('k, 'v) cache_op = Get 'k | Set 'k 'v "int option" | Delete 'k

text \<open>One operation at clock reading \<open>now\<close> (a write whose two readings are both
  \<open>now\<close>), and a sequence of timed operations.\<close>

fun run_op :: "('k, 'v) cache_op \<times> int \<Rightarrow> ('k, 'v) MemoryCache \<Rightarrow> ('k, 'v) MemoryCache" where
  "run_op (Get key, now) c = snd (MemoryCache_get key now c)"
| "run_op (Set key v ttl, now) c = MemoryCache_set key v ttl now now c"
| "run_op (Delete key, now) c = snd (MemoryCache_delete key c)"

definition run_ops :: "(('k, 'v) cache_op \<times> int) list \<Rightarrow> ('k, 'v) MemoryCache \<Rightarrow> ('k, 'v) MemoryCache" where
  "run_ops ops c = foldl (\<lambda>c op. run_op op c) c ops"

definition stale_order_ops :: "((string, nat) cache_op \<times> int) list" where
  "stale_order_ops =
     [(Set ''a'' 1 (Some 10), 1000), (Get ''a'', 2000), (Set ''b'' 2 None, 2001),
      (Set ''c'' 3 None, 2002)]"

text \<open>
  C2 fails on the code. On a cache of capacity 1: \<open>set('a', 1, 10)\<close> at time 1000;
  \<open>get('a')\<close> at time 2000 finds the entry expired and deletes it from the map but
  leaves \<open>'a'\<close> in \<open>accessOrder\<close>; \<open>set('b', 2)\<close> fills the cache; \<open>set('c', 3)\<close>, a
  new key at capacity, shifts the stale \<open>'a'\<close> out of the order and deletes nothing.
  The cache then holds two entries, and the least recently used live key \<open>'b'\<close> was not
  evicted.
\<close>

theorem C2_capacity_exceeded:
  "maxSize (run_ops stale_order_ops (new_MemoryCache 1)) = 1
   \<and> MemoryCache_size (run_ops stale_order_ops (new_MemoryCache 1)) = 2
   \<and> map fst (cache (run_ops stale_order_ops (new_MemoryCache 1))) = [''b'', ''c'']
   \<and> accessOrder (run_ops (take 3 stale_order_ops) (new_MemoryCache 1)) = [''a'', ''b'']
   \<and> map fst (cache (run_ops (take 3 stale_order_ops) (new_MemoryCache 1))) = [''b'']"
  by (simp add: run_ops_def stale_order_ops_def new_MemoryCache_def MemoryCache_set_def
        MemoryCache_get_def MemoryCache_size_def cache_has_def evict_def touch_def
        make_entry_def expired_def Let_def)


subsection \<open>Expiry\<close>

lemma CACHE_EXPIRATION_positive: "\<forall>t \<in> set CACHE_EXPIRATION. 0 < t"
  by (simp add: CACHE_EXPIRATION_def CACHE_EXPIRATION_COVERS_def CACHE_EXPIRATION_CHAPTERS_def
        CACHE_EXPIRATION_MANGA_def CACHE_EXPIRATION_EXTENSIONS_def)

lemma expired_make_entry:
  "t \<noteq> 0 \<Longrightarrow> now_e + t \<noteq> 0 \<Longrightarrow> expired now (make_entry v (Some t) now_e now_c) = (now > now_e + t)"
  by (simp add: expired_def make_entry_def)

lemma map_of_after_set:
  "map_of (cache (MemoryCache_set key v ttl now_e now_c c)) key = Some (make_entry v ttl now_e now_c)"
  by (simp add: MemoryCache_set_def Let_def update_conv')

lemma MemoryCache_get_expired:
  assumes "map_of (cache c) key = Some entry" "expired now entry"
  shows "MemoryCache_get key now c = (None, c\<lparr> cache := AList.delete key (cache c) \<rparr>)"
  using assms by (simp add: MemoryCache_get_def)

lemma MemoryCache_get_live:
  assumes "map_of (cache c) key = Some entry" "\<not> expired now entry"
  shows "fst (MemoryCache_get key now c) = Some (entry_value entry)"
  using assms by (simp add: MemoryCache_get_def)

text \<open>A read of the key that was just written with a positive TTL, in either tier:
  after \<open>expiresAt = now_e + t\<close> the entry is absent and removed, up to it the value is
  returned.\<close>

lemma read_after_expiry:
  assumes "0 < t" "0 \<le> now_e" "now > now_e + t"
  shows "fst (MemoryCache_get key now (MemoryCache_set key v (Some t) now_e now_c c)) = None"
    and "\<not> cache_has (snd (MemoryCache_get key now (MemoryCache_set key v (Some t) now_e now_c c))) key"
    and "fst (getFromStorage skey now (saveToStorage skey v (Some t) now_e now_c st)) = None"
    and "snd (getFromStorage skey now (saveToStorage skey v (Some t) now_e now_c st)) skey = None"
proof -
  let ?c1 = "MemoryCache_set key v (Some t) now_e now_c c"
  let ?e = "make_entry v (Some t) now_e now_c"
  have m: "map_of (cache ?c1) key = Some ?e" by (rule map_of_after_set)
  have e: "expired now ?e"
    using assms expired_make_entry [of t now_e now v now_c] by simp
  show "fst (MemoryCache_get key now ?c1) = None"
    using MemoryCache_get_expired [OF m e] by simp
  show "\<not> cache_has (snd (MemoryCache_get key now ?c1)) key"
    using MemoryCache_get_expired [OF m e] by (simp add: cache_has_def delete_notin_dom)
  show "fst (getFromStorage skey now (saveToStorage skey v (Some t) now_e now_c st)) = None"
    using e by (simp add: getFromStorage_def saveToStorage_def)
  show "snd (getFromStorage skey now (saveToStorage skey v (Some t) now_e now_c st)) skey = None"
    using e by (simp add: getFromStorage_def saveToStorage_def)
qed

lemma read_up_to_expiry:
  assumes "0 < t" "0 \<le> now_e" "now \<le> now_e + t"
  shows "fst (MemoryCache_get key now (MemoryCache_set key v (Some t) now_e now_c c)) = Some v"
    and "fst (getFromStorage skey now (saveToStorage skey v (Some t) now_e now_c st)) = Some v"
proof -
  let ?c1 = "MemoryCache_set key v (Some t) now_e now_c c"
  let ?e = "make_entry v (Some t) now_e now_c"
  have m: "map_of (cache ?c1) key = Some ?e" by (rule map_of_after_set)
  have e: "\<not> expired now ?e"
    using assms expired_make_entry [of t now_e now v now_c] by simp
  show "fst (MemoryCache_get key now ?c1) = Some v"
    using MemoryCache_get_live [OF m e] by (simp add: make_entry_def)
  show "fst (getFromStorage skey now (saveToStorage skey v (Some t) now_e now_c st)) = Some v"
    using e by (simp add: getFromStorage_def saveToStorage_def make_entry_def)
qed

text \<open>A TTL of 0 is falsy and would be written without expiry; no call of the module
  passes it.\<close>

lemma zero_ttl_written_without_expiry:
  "expiresAt (make_entry v (Some 0) now_e now_c) = None"
  by (simp add: make_entry_def)

text \<open>
  C6, as the claim states it, fails at the boundary: the expiry is counted from the
  first clock reading of the write and \<open>cachedAt\<close> is the second. \<open>MangaCache.set\<close>
  writes with the TTL \<open>CACHE_EXPIRATION.MANGA\<close> (6 hours, 21600000 ms). When
  \<open>Date.now()\<close> reads 1000 for \<open>expiresAt\<close> and 1002 for \<open>cachedAt\<close> of the same
  entry, a read at 21601001, strictly before \<open>cachedAt + t = 21601002\<close>, finds the
  entry expired (\<open>expiresAt = 21601000\<close>) in both tiers and returns absent. When the
  clock is set back between the two readings (1002, then 1000), a read at 21601001,
  strictly after \<open>cachedAt + t = 21601000\<close>, still returns the value.
\<close>

theorem C6_expiry_counts_from_first_reading:
  "cachedAt (make_entry (7::nat) (Some CACHE_EXPIRATION_MANGA) 1000 1002) = 1002
   \<and> expiresAt (make_entry (7::nat) (Some CACHE_EXPIRATION_MANGA) 1000 1002) = Some 21601000
   \<and> (21601001::int) < 1002 + CACHE_EXPIRATION_MANGA
   \<and> fst (MemoryCache_get ''k'' 21601001
            (MemoryCache_set ''k'' (7::nat) (Some CACHE_EXPIRATION_MANGA) 1000 1002 (new_MemoryCache 50)))
       = None
   \<and> fst (getFromStorage ''k'' 21601001
            (saveToStorage ''k'' (7::nat) (Some CACHE_EXPIRATION_MANGA) 1000 1002 Map.empty))
       = None
   \<and> cachedAt (make_entry (7::nat) (Some CACHE_EXPIRATION_MANGA) 1002 1000) = 1000
   \<and> (21601001::int) > 1000 + CACHE_EXPIRATION_MANGA
   \<and> fst (MemoryCache_get ''k'' 21601001
            (MemoryCache_set ''k'' (7::nat) (Some CACHE_EXPIRATION_MANGA) 1002 1000 (new_MemoryCache 50)))
       = Some 7
   \<and> fst (getFromStorage ''k'' 21601001
            (saveToStorage ''k'' (7::nat) (Some CACHE_EXPIRATION_MANGA) 1002 1000 Map.empty))
       = Some 7"
  by (simp add: MemoryCache_get_def MemoryCache_set_def new_MemoryCache_def getFromStorage_def
        saveToStorage_def make_entry_def expired_def cache_has_def touch_def Let_def
        CACHE_EXPIRATION_MANGA_def)

text \<open>
  C6, amended: a key written with a positive TTL \<open>t\<close> (as every TTL of the module is)
  gets the entry \<open>{value, expiresAt = now_e + t, cachedAt = now_c}\<close>, where \<open>now_e\<close> and
  \<open>now_c\<close> are the two clock readings of the write, in this order. In the memory tier
  (\<open>MemoryCache.get\<close> after \<open>set\<close>) and in the persistent tier (\<open>getFromStorage\<close>
  after \<open>saveToStorage\<close>):
  \<^item> a read strictly after \<open>expiresAt\<close> returns absent and removes the key from the
    tier's store, and a read at or before \<open>expiresAt\<close> returns the cached value;
  \<^item> when the clock did not run backwards between the two readings, a read strictly
    after \<open>cachedAt + t\<close> returns absent and removes the key;
  \<^item> when the two readings are at most one millisecond apart, a read strictly before
    \<open>cachedAt + t\<close> returns the cached value;
  \<^item> an entry that carries a non-zero expiry in the past is never served.
\<close>

theorem C6_ttl_expiry:
  assumes "0 < t" and "0 \<le> now_e"
  shows
    "map_of (cache (MemoryCache_set key v (Some t) now_e now_c c)) key
        = Some \<lparr> entry_value = v, expiresAt = Some (now_e + t), cachedAt = now_c \<rparr>
     \<and> saveToStorage skey v (Some t) now_e now_c st skey
        = Some \<lparr> entry_value = v, expiresAt = Some (now_e + t), cachedAt = now_c \<rparr>
     \<and> (now > now_e + t \<longrightarrow>
        fst (MemoryCache_get key now (MemoryCache_set key v (Some t) now_e now_c c)) = None
        \<and> \<not> cache_has (snd (MemoryCache_get key now (MemoryCache_set key v (Some t) now_e now_c c))) key
        \<and> fst (getFromStorage skey now (saveToStorage skey v (Some t) now_e now_c st)) = None
        \<and> snd (getFromStorage skey now (saveToStorage skey v (Some t) now_e now_c st)) skey = None)
     \<and> (now \<le> now_e + t \<longrightarrow>
        fst (MemoryCache_get key now (MemoryCache_set key v (Some t) now_e now_c c)) = Some v
        \<and> fst (getFromStorage skey now (saveToStorage skey v (Some t) now_e now_c st)) = Some v)
     \<and> (now_e \<le> now_c \<and> now > now_c + t \<longrightarrow>
        fst (MemoryCache_get key now (MemoryCache_set key v (Some t) now_e now_c c)) = None
        \<and> \<not> cache_has (snd (MemoryCache_get key now (MemoryCache_set key v (Some t) now_e now_c c))) key
        \<and> fst (getFromStorage skey now (saveToStorage skey v (Some t) now_e now_c st)) = None
        \<and> snd (getFromStorage skey now (saveToStorage skey v (Some t) now_e now_c st)) skey = None)
     \<and> (now_c \<le> now_e + 1 \<and> now < now_c + t \<longrightarrow>
        fst (MemoryCache_get key now (MemoryCache_set key v (Some t) now_e now_c c)) = Some v
        \<and> fst (getFromStorage skey now (saveToStorage skey v (Some t) now_e now_c st)) = Some v)
     \<and> (map_of (cache c) key = Some entry \<and> expiresAt entry = Some x \<and> x \<noteq> 0 \<and> x < now \<longrightarrow>
        fst (MemoryCache_get key now c) = None)
     \<and> (st skey = Some entry \<and> expiresAt entry = Some x \<and> x \<noteq> 0 \<and> x < now \<longrightarrow>
        fst (getFromStorage skey now st) = None)"
proof (intro conjI impI)
  show "map_of (cache (MemoryCache_set key v (Some t) now_e now_c c)) key
        = Some \<lparr> entry_value = v, expiresAt = Some (now_e + t), cachedAt = now_c \<rparr>"
    using assms(1) by (simp add: map_of_after_set make_entry_def)
  show "saveToStorage skey v (Some t) now_e now_c st skey
        = Some \<lparr> entry_value = v, expiresAt = Some (now_e + t), cachedAt = now_c \<rparr>"
    using assms(1) by (simp add: saveToStorage_def make_entry_def)
  {
    assume late: "now > now_e + t"
    note r = read_after_expiry [OF assms late]
    show "fst (MemoryCache_get key now (MemoryCache_set key v (Some t) now_e now_c c)) = None"
      by (rule r(1))
    show "\<not> cache_has (snd (MemoryCache_get key now (MemoryCache_set key v (Some t) now_e now_c c))) key"
      by (rule r(2))
    show "fst (getFromStorage skey now (saveToStorage skey v (Some t) now_e now_c st)) = None"
      by (rule r(3))
    show "snd (getFromStorage skey now (saveToStorage skey v (Some t) now_e now_c st)) skey = None"
      by (rule r(4))
  }
  {
    assume early: "now \<le> now_e + t"
    note r = read_up_to_expiry [OF assms early]
    show "fst (MemoryCache_get key now (MemoryCache_set key v (Some t) now_e now_c c)) = Some v"
      by (rule r(1))
    show "fst (getFromStorage skey now (saveToStorage skey v (Some t) now_e now_c st)) = Some v"
      by (rule r(2))
  }
  {
    assume "now_e \<le> now_c \<and> now > now_c + t"
    then have late: "now > now_e + t" by simp
    note r = read_after_expiry [OF assms late]
    show "fst (MemoryCache_get key now (MemoryCache_set key v (Some t) now_e now_c c)) = None"
      by (rule r(1))
    show "\<not> cache_has (snd (MemoryCache_get key now (MemoryCache_set key v (Some t) now_e now_c c))) key"
      by (rule r(2))
    show "fst (getFromStorage skey now (saveToStorage skey v (Some t) now_e now_c st)) = None"
      by (rule r(3))
    show "snd (getFromStorage skey now (saveToStorage skey v (Some t) now_e now_c st)) skey = None"
      by (rule r(4))
  }
  {
    assume "now_c \<le> now_e + 1 \<and> now < now_c + t"
    then have early: "now \<le> now_e + t" by simp
    note r = read_up_to_expiry [OF assms early]
    show "fst (MemoryCache_get key now (MemoryCache_set key v (Some t) now_e now_c c)) = Some v"
      by (rule r(1))
    show "fst (getFromStorage skey now (saveToStorage skey v (Some t) now_e now_c st)) = Some v"
      by (rule r(2))
  }
  {
    assume "map_of (cache c) key = Some entry \<and> expiresAt entry = Some x \<and> x \<noteq> 0 \<and> x < now"
    then show "fst (MemoryCache_get key now c) = None"
      by (simp add: MemoryCache_get_def expired_def)
  }
  {
    assume "st skey = Some entry \<and> expiresAt entry = Some x \<and> x \<noteq> 0 \<and> x < now"
    then show "fst (getFromStorage skey now st) = None"
      by (simp add: getFromStorage_def expired_def)
  }
qed

text \<open>The theorem at the write of \<open>MangaCache.set\<close> with the readings 1000 and 1001:
  \<open>expiresAt = 21601000\<close> and \<open>cachedAt + t = 21601001\<close>.\<close>

theorem C6_ttl_expiry_witness:
  "fst (MemoryCache_get ''k'' 21601002
          (MemoryCache_set ''k'' (7::nat) (Some CACHE_EXPIRATION_MANGA) 1000 1001 (new_MemoryCache 50)))
     = None
   \<and> \<not> cache_has (snd (MemoryCache_get ''k'' 21601002
          (MemoryCache_set ''k'' (7::nat) (Some CACHE_EXPIRATION_MANGA) 1000 1001 (new_MemoryCache 50))))
        ''k''
   \<and> fst (MemoryCache_get ''k'' 21601000
          (MemoryCache_set ''k'' (7::nat) (Some CACHE_EXPIRATION_MANGA) 1000 1001 (new_MemoryCache 50)))
     = Some 7
   \<and> fst (getFromStorage ''k'' 21601002
          (saveToStorage ''k'' (7::nat) (Some CACHE_EXPIRATION_MANGA) 1000 1001 Map.empty)) = None
   \<and> snd (getFromStorage ''k'' 21601002
          (saveToStorage ''k'' (7::nat) (Some CACHE_EXPIRATION_MANGA) 1000 1001 Map.empty)) ''k'' = None
   \<and> fst (getFromStorage ''k'' 21601000
          (saveToStorage ''k'' (7::nat) (Some CACHE_EXPIRATION_MANGA) 1000 1001 Map.empty)) = Some 7
   \<and> fst (getFromStorage ''k'' 21601002
          [''k'' \<mapsto> \<lparr> entry_value = 7::nat, expiresAt = Some 21601000, cachedAt = 1001 \<rparr>]) = None"
proof -
  have h: "0 < CACHE_EXPIRATION_MANGA" "(0::int) \<le> 1000"
    by (simp_all add: CACHE_EXPIRATION_MANGA_def)
  have t: "CACHE_EXPIRATION_MANGA = 21600000"
    by (simp add: CACHE_EXPIRATION_MANGA_def)
  let ?entry = "\<lparr> entry_value = 7::nat, expiresAt = Some 21601000, cachedAt = 1001 \<rparr>"
  note late = C6_ttl_expiry [OF h, where now = 21601002 and now_c = 1001 and key = "''k''"
      and skey = "''k''" and v = "7::nat" and c = "new_MemoryCache 50" and st = Map.empty
      and entry = ?entry and x = 21601000]
  note early = C6_ttl_expiry [OF h, where now = 21601000 and now_c = 1001 and key = "''k''"
      and skey = "''k''" and v = "7::nat" and c = "new_MemoryCache 50" and st = Map.empty
      and entry = ?entry and x = 21601000]
  note stored = C6_ttl_expiry [OF h, where now = 21601002 and now_c = 1001 and key = "''k''"
      and skey = "''k''" and v = "7::nat" and c = "new_MemoryCache 50"
      and st = "[''k'' \<mapsto> ?entry]" and entry = ?entry and x = 21601000]
  from late t have
    "fst (MemoryCache_get ''k'' 21601002
          (MemoryCache_set ''k'' (7::nat) (Some CACHE_EXPIRATION_MANGA) 1000 1001 (new_MemoryCache 50)))
       = None"
    "\<not> cache_has (snd (MemoryCache_get ''k'' 21601002
          (MemoryCache_set ''k'' (7::nat) (Some CACHE_EXPIRATION_MANGA) 1000 1001 (new_MemoryCache 50))))
        ''k''"
    "fst (getFromStorage ''k'' 21601002
          (saveToStorage ''k'' (7::nat) (Some CACHE_EXPIRATION_MANGA) 1000 1001 Map.empty)) = None"
    "snd (getFromStorage ''k'' 21601002
          (saveToStorage ''k'' (7::nat) (Some CACHE_EXPIRATION_MANGA) 1000 1001 Map.empty)) ''k'' = None"
    by simp_all
  moreover from early t have
    "fst (MemoryCache_get ''k'' 21601000
          (MemoryCache_set ''k'' (7::nat) (Some CACHE_EXPIRATION_MANGA) 1000 1001 (new_MemoryCache 50)))
       = Some 7"
    "fst (getFromStorage ''k'' 21601000
          (saveToStorage ''k'' (7::nat) (Some CACHE_EXPIRATION_MANGA) 1000 1001 Map.empty)) = Some 7"
    by simp_all
  moreover from stored have
    "fst (getFromStorage ''k'' 21601002 [''k'' \<mapsto> ?entry]) = None"
    by simp
  ultimately show ?thesis by blast
qed

section \<open>Rate limiter (services/networkUtils.js)\<close>

record RateLimiter =
  permits :: nat
  periodMs :: int
  requestQueue :: "int list"

definition new_RateLimiter :: "nat \<Rightarrow> int \<Rightarrow> RateLimiter" where
  "new_RateLimiter p w = \<lparr> permits = p, periodMs = w, requestQueue = [] \<rparr>"

text \<open>The queue without the timestamps outside the window that ends at \<open>now\<close>.\<close>

definition prune :: "int \<Rightarrow> RateLimiter \<Rightarrow> int list" where
  "prune now rl = filter (\<lambda>timestamp. now - timestamp < periodMs rl) (requestQueue rl)"

text \<open>
  The synchronous part of \<open>acquire\<close>, run at clock reading \<open>now\<close>: it prunes the
  queue and either asks the caller to wait (\<open>Some waitTime\<close>) or records \<open>now\<close>
  (\<open>None\<close>). On an empty queue \<open>requestQueue[0]\<close> is \<open>undefined\<close>, \<open>waitTime\<close> is
  \<open>NaN\<close> and \<open>waitTime > 0\<close> is false.
\<close>

definition acquire_step :: "int \<Rightarrow> RateLimiter \<Rightarrow> int option \<times> RateLimiter" where
  "acquire_step now rl =
     (let queue = prune now rl;
          record_now = (None, rl\<lparr> requestQueue := queue @ [now] \<rparr>)
      in if length queue \<ge> permits rl then
           (case queue of
              [] \<Rightarrow> record_now
            | oldestRequest # later \<Rightarrow>
                (let waitTime = periodMs rl - (now - oldestRequest)
                 in if waitTime > 0 then (Some waitTime, rl\<lparr> requestQueue := queue \<rparr>)
                    else record_now))
         else record_now)"

lemma acquire_step_wait_shrinks:
  assumes "acquire_step now rl = (Some waitTime, rl')"
  shows "length (prune (now + waitTime) rl') < length (prune now rl)"
proof -
  let ?q = "prune now rl"
  from assms obtain oldest later where q: "?q = oldest # later"
    and w: "waitTime = periodMs rl - (now - oldest)" "waitTime > 0"
    and rl': "rl' = rl\<lparr> requestQueue := ?q \<rparr>"
    by (auto simp: acquire_step_def Let_def split: if_splits list.splits)
  have "prune (now + waitTime) rl'
          = filter (\<lambda>t. now + waitTime - t < periodMs rl) (oldest # later)"
    using q rl' by (simp add: prune_def)
  also have "\<dots> = filter (\<lambda>t. now + waitTime - t < periodMs rl) later"
    using w by simp
  finally have "length (prune (now + waitTime) rl') \<le> length later"
    by simp
  then show ?thesis using q by simp
qed

text \<open>
  \<open>acquire\<close> under a synthetic clock: the caller that has to wait resumes exactly
  \<open>waitTime\<close> later and tries again. The result is the time at which the request was
  recorded and the limiter after it.
\<close>

function acquire :: "int \<Rightarrow> RateLimiter \<Rightarrow> int \<times> RateLimiter" where
  "acquire now rl =
     (case acquire_step now rl of
        (Some waitTime, rl') \<Rightarrow> acquire (now + waitTime) rl'
      | (None, rl') \<Rightarrow> (now, rl'))"
  by pat_completeness auto
termination
  by (relation "measure (\<lambda>(now, rl). length (prune now rl))")
     (auto simp: acquire_step_wait_shrinks)

declare acquire.simps [simp del]

text \<open>Requests made one after the other: each arrives at its time or when the
  previous one was granted, whichever is later. The result lists the recorded
  timestamps.\<close>

fun acquire_all :: "int list \<Rightarrow> int \<Rightarrow> RateLimiter \<Rightarrow> int list \<times> RateLimiter" where
  "acquire_all [] clock rl = ([], rl)"
| "acquire_all (arrival # arrivals) clock rl =
     (case acquire (max clock arrival) rl of
        (granted, rl') \<Rightarrow>
          (case acquire_all arrivals granted rl' of
             (rest, rl'') \<Rightarrow> (granted # rest, rl'')))"

text \<open>Concurrent callers: any interleaving runs the synchronous part at the clock
  readings \<open>nows\<close>, whichever caller each run belongs to (arriving or waking up). The
  result lists the recorded timestamps.\<close>

fun run_steps :: "int list \<Rightarrow> RateLimiter \<Rightarrow> int list \<times> RateLimiter" where
  "run_steps [] rl = ([], rl)"
| "run_steps (now # nows) rl =
     (case acquire_step now rl of
        (None, rl') \<Rightarrow> (case run_steps nows rl' of (rest, rl'') \<Rightarrow> (now # rest, rl''))
      | (Some waitTime, rl') \<Rightarrow> run_steps nows rl')"

text \<open>The number of recorded requests whose timestamps lie within the \<open>W\<close>
  milliseconds that precede the time \<open>T\<close>: not after \<open>T\<close> and less than \<open>W\<close>
  before it, the test \<open>now - timestamp < periodMs\<close> of \<open>acquire\<close>.\<close>

definition window_count :: "int \<Rightarrow> int \<Rightarrow> int list \<Rightarrow> nat" where
  "window_count W T stamps = length (filter (\<lambda>t. t \<le> T \<and> T - t < W) stamps)"


subsection \<open>The window bound\<close>

text \<open>
  The invariant that links the limiter to the history of recorded timestamps at clock
  reading \<open>clock\<close>: no recorded timestamp lies in the future, the queue holds exactly
  the recorded timestamps that are still inside the window, and no window holds more
  than \<open>permits\<close> of them.
\<close>

definition limiter_inv :: "int list \<Rightarrow> RateLimiter \<Rightarrow> int \<Rightarrow> bool" where
  "limiter_inv hist rl clock \<longleftrightarrow>
     0 < permits rl
     \<and> (\<forall>t \<in> set hist. t \<le> clock)
     \<and> filter (\<lambda>t. clock - t < periodMs rl) hist = prune clock rl
     \<and> (\<forall>T. window_count (periodMs rl) T hist \<le> permits rl)"

lemma filter_length_mono:
  "(\<And>x. x \<in> set xs \<Longrightarrow> P x \<Longrightarrow> Q x) \<Longrightarrow> length (filter P xs) \<le> length (filter Q xs)"
  by (induction xs) auto

lemma filter_filter_window:
  assumes "\<And>t. t \<in> set xs \<Longrightarrow> P t \<Longrightarrow> Q t"
  shows "filter P (filter Q xs) = filter P xs"
  using assms by (induction xs) auto

lemma limiter_inv_new: "0 < p \<Longrightarrow> limiter_inv [] (new_RateLimiter p w) clock"
  by (simp add: limiter_inv_def new_RateLimiter_def prune_def window_count_def)

lemma prune_later:
  assumes "limiter_inv hist rl clock" "clock \<le> now"
  shows "filter (\<lambda>t. now - t < periodMs rl) hist = prune now rl"
proof -
  let ?W = "periodMs rl"
  have "filter (\<lambda>t. now - t < ?W) hist
          = filter (\<lambda>t. now - t < ?W) (filter (\<lambda>t. clock - t < ?W) hist)"
    using assms(2) by (intro filter_filter_window [symmetric]) simp
  also have "\<dots> = filter (\<lambda>t. now - t < ?W) (prune clock rl)"
    using assms(1) by (simp add: limiter_inv_def)
  also have "\<dots> = filter (\<lambda>t. now - t < ?W) (requestQueue rl)"
    unfolding prune_def using assms(2) by (intro filter_filter_window) simp
  finally show ?thesis by (simp add: prune_def)
qed

lemma acquire_step_full:
  assumes "0 < permits rl" "length (prune now rl) \<ge> permits rl"
  shows "acquire_step now rl =
           (Some (periodMs rl - (now - hd (prune now rl))), rl\<lparr> requestQueue := prune now rl \<rparr>)
         \<and> 0 < periodMs rl - (now - hd (prune now rl))"
proof -
  from assms obtain oldest later where q: "prune now rl = oldest # later"
    by (cases "prune now rl") auto
  then have "oldest \<in> set (prune now rl)" by simp
  then have "now - oldest < periodMs rl" by (simp add: prune_def)
  then show ?thesis using assms q by (simp add: acquire_step_def Let_def)
qed

lemma acquire_step_free:
  assumes "length (prune now rl) < permits rl"
  shows "acquire_step now rl = (None, rl\<lparr> requestQueue := prune now rl @ [now] \<rparr>)"
  using assms by (simp add: acquire_step_def Let_def)

lemma limiter_inv_wait:
  assumes "limiter_inv hist rl clock" "clock \<le> now"
  shows "limiter_inv hist (rl\<lparr> requestQueue := prune now rl \<rparr>) now"
proof -
  have "prune now (rl\<lparr> requestQueue := prune now rl \<rparr>) = prune now rl"
    by (simp add: prune_def)
  moreover have "\<forall>t \<in> set hist. t \<le> now"
    using assms by (auto simp: limiter_inv_def)
  ultimately show ?thesis
    using assms prune_later [OF assms] by (simp add: limiter_inv_def)
qed

lemma limiter_inv_record:
  assumes inv: "limiter_inv hist rl clock" and le: "clock \<le> now"
    and free: "length (prune now rl) < permits rl"
  shows "limiter_inv (hist @ [now]) (rl\<lparr> requestQueue := prune now rl @ [now] \<rparr>) now"
proof -
  let ?W = "periodMs rl"
  have past: "\<forall>t \<in> set hist. t \<le> now"
    using inv le by (auto simp: limiter_inv_def)
  have eq: "filter (\<lambda>t. now - t < ?W) hist = prune now rl"
    by (rule prune_later [OF inv le])
  have "filter (\<lambda>t. now - t < ?W) (prune now rl) = prune now rl"
    by (simp add: prune_def)
  then have q: "prune now (rl\<lparr> requestQueue := prune now rl @ [now] \<rparr>)
             = filter (\<lambda>t. now - t < ?W) (hist @ [now])"
    using eq by (simp add: prune_def)
  have bound: "window_count ?W T (hist @ [now]) \<le> permits rl" for T
  proof (cases "now \<le> T")
    case True
    have "window_count ?W T hist \<le> length (filter (\<lambda>t. now - t < ?W) hist)"
      unfolding window_count_def using True by (intro filter_length_mono) auto
    also have "\<dots> < permits rl" using eq free by simp
    finally show ?thesis by (simp add: window_count_def)
  next
    case False
    then have "window_count ?W T (hist @ [now]) = window_count ?W T hist"
      by (simp add: window_count_def)
    then show ?thesis using inv by (simp add: limiter_inv_def)
  qed
  show ?thesis
    unfolding limiter_inv_def using inv past q bound by (simp add: limiter_inv_def)
qed

lemma acquire_step_inv:
  assumes "limiter_inv hist rl clock" "clock \<le> now" "acquire_step now rl = (r, rl')"
  shows "limiter_inv (case r of None \<Rightarrow> hist @ [now] | Some w \<Rightarrow> hist) rl' now
         \<and> permits rl' = permits rl \<and> periodMs rl' = periodMs rl
         \<and> (\<forall>w. r = Some w \<longrightarrow> 0 < w)"
proof (cases "length (prune now rl) < permits rl")
  case True
  with assms(3) have "r = None" "rl' = rl\<lparr> requestQueue := prune now rl @ [now] \<rparr>"
    by (simp_all add: acquire_step_free)
  then show ?thesis
    using limiter_inv_record [OF assms(1,2) True] by simp
next
  case False
  have "0 < permits rl" using assms(1) by (simp add: limiter_inv_def)
  with False acquire_step_full [of rl now] assms limiter_inv_wait [OF assms(1,2)]
  show ?thesis by auto
qed


lemma run_steps_inv:
  "limiter_inv hist rl clock \<Longrightarrow> sorted (clock # nows) \<Longrightarrow> run_steps nows rl = (gs, rl') \<Longrightarrow>
     limiter_inv (hist @ gs) rl' (last (clock # nows)) \<and> permits rl' = permits rl
     \<and> periodMs rl' = periodMs rl"
proof (induction nows arbitrary: hist rl clock gs rl')
  case Nil
  then show ?case by simp
next
  case (Cons now nows)
  obtain r rl1 where st: "acquire_step now rl = (r, rl1)"
    by (cases "acquire_step now rl")
  have le: "clock \<le> now" and srt: "sorted (now # nows)"
    using Cons.prems(2) by simp_all
  note step = acquire_step_inv [OF Cons.prems(1) le st]
  show ?case
  proof (cases r)
    case None
    with Cons.prems(3) st obtain rest where
      rest: "run_steps nows rl1 = (rest, rl')" and gs: "gs = now # rest"
      by (auto split: prod.splits)
    from step None have "limiter_inv (hist @ [now]) rl1 now" by simp
    from Cons.IH [OF this srt rest] step gs show ?thesis by simp
  next
    case (Some w)
    with Cons.prems(3) st have rest: "run_steps nows rl1 = (gs, rl')" by simp
    from step Some have "limiter_inv hist rl1 now" by simp
    from Cons.IH [OF this srt rest] step show ?thesis by simp
  qed
qed

lemma acquire_inv:
  "limiter_inv hist rl clock \<Longrightarrow> clock \<le> now \<Longrightarrow> acquire now rl = (g, rl') \<Longrightarrow>
     now \<le> g \<and> limiter_inv (hist @ [g]) rl' g \<and> permits rl' = permits rl
     \<and> periodMs rl' = periodMs rl"
proof (induction now rl arbitrary: clock rule: acquire.induct)
  case (1 now rl)
  obtain r rl1 where st: "acquire_step now rl = (r, rl1)"
    by (cases "acquire_step now rl")
  note step = acquire_step_inv [OF "1.prems"(1,2) st]
  show ?case
  proof (cases r)
    case None
    with "1.prems"(3) st have "g = now" "rl' = rl1"
      by (simp_all add: acquire.simps [of now rl])
    with step None show ?thesis by simp
  next
    case (Some w)
    with "1.prems"(3) st have rec: "acquire (now + w) rl1 = (g, rl')"
      by (simp add: acquire.simps [of now rl])
    from step Some have inv1: "limiter_inv hist rl1 now" and w: "0 < w" by simp_all
    from "1.IH" [OF st [symmetric] Some inv1 _ rec] w step
    show ?thesis by simp
  qed
qed

lemma acquire_all_inv:
  "limiter_inv hist rl clock0 \<Longrightarrow> clock0 \<le> clock \<Longrightarrow> acquire_all arrivals clock rl = (gs, rl') \<Longrightarrow>
     \<exists>c. limiter_inv (hist @ gs) rl' c \<and> permits rl' = permits rl \<and> periodMs rl' = periodMs rl"
proof (induction arrivals arbitrary: hist rl clock0 clock gs rl')
  case Nil
  then show ?case by auto
next
  case (Cons a arrivals)
  obtain g rl1 where ac: "acquire (max clock a) rl = (g, rl1)"
    by (cases "acquire (max clock a) rl")
  with Cons.prems(3) obtain rest where
    rest: "acquire_all arrivals g rl1 = (rest, rl')" and gs: "gs = g # rest"
    by (auto split: prod.splits)
  have "clock0 \<le> max clock a" using Cons.prems(2) by simp
  note a1 = acquire_inv [OF Cons.prems(1) this ac]
  then have "limiter_inv (hist @ [g]) rl1 g" by simp
  from Cons.IH [OF this order_refl rest] a1 gs show ?case by simp
qed

lemma acquire_full:
  assumes "0 < permits rl" "length (prune now rl) \<ge> permits rl"
  shows "acquire now rl =
           acquire (hd (prune now rl) + periodMs rl) (rl\<lparr> requestQueue := prune now rl \<rparr>)"
proof -
  have "now + (periodMs rl - (now - hd (prune now rl))) = hd (prune now rl) + periodMs rl"
    by simp
  then show ?thesis
    using acquire_step_full [OF assms] by (simp add: acquire.simps [of now rl] add.commute)
qed

text \<open>For \<open>N \<ge> 1\<close> permits per window of \<open>W\<close> milliseconds, under a clock that does
  not run backwards, no time \<open>T\<close> has more than \<open>N\<close> recorded requests whose timestamps
  lie within the \<open>W\<close> milliseconds before it, for requests made one after the other and
  for any interleaving of concurrent callers. When the window is full, \<open>acquire\<close> waits
  a positive time, until the oldest timestamp of the queue has left the window, and then
  runs again from the start on the pruned queue; when it is not full, it records the
  current time at once.\<close>

lemma window_bound:
  assumes "0 < N"
  shows
    "(sorted nows \<longrightarrow> window_count W T (fst (run_steps nows (new_RateLimiter N W))) \<le> N)
     \<and> window_count W T (fst (acquire_all arrivals clock (new_RateLimiter N W))) \<le> N
     \<and> (0 < permits rl \<and> permits rl \<le> length (prune now rl) \<longrightarrow>
          acquire now rl
            = acquire (hd (prune now rl) + periodMs rl) (rl\<lparr> requestQueue := prune now rl \<rparr>)
          \<and> now < hd (prune now rl) + periodMs rl
          \<and> hd (prune now rl) \<notin> set (prune (hd (prune now rl) + periodMs rl) rl))
     \<and> (length (prune now rl) < permits rl \<longrightarrow>
          acquire now rl = (now, rl\<lparr> requestQueue := prune now rl @ [now] \<rparr>))"
proof (intro conjI impI)
  let ?rl0 = "new_RateLimiter N W"
  have pw: "permits ?rl0 = N" "periodMs ?rl0 = W" by (simp_all add: new_RateLimiter_def)
  {
    assume srt: "sorted nows"
    obtain gs rl' where r: "run_steps nows ?rl0 = (gs, rl')"
      by (cases "run_steps nows ?rl0")
    let ?c = "case nows of [] \<Rightarrow> 0 | n # ns \<Rightarrow> n"
    have "sorted (?c # nows)" using srt by (cases nows) auto
    from run_steps_inv [OF limiter_inv_new [OF assms] this r]
    have "limiter_inv gs rl' (last (?c # nows))" "permits rl' = N" "periodMs rl' = W"
      using pw by simp_all
    then show "window_count W T (fst (run_steps nows ?rl0)) \<le> N"
      using r by (simp add: limiter_inv_def)
  }
  {
    obtain gs rl' where r: "acquire_all arrivals clock ?rl0 = (gs, rl')"
      by (cases "acquire_all arrivals clock ?rl0")
    from acquire_all_inv [OF limiter_inv_new [OF assms] order_refl r]
    obtain c where "limiter_inv gs rl' c" "permits rl' = N" "periodMs rl' = W"
      using pw by auto
    then show "window_count W T (fst (acquire_all arrivals clock ?rl0)) \<le> N"
      using r by (simp add: limiter_inv_def)
  }
  {
    assume full: "0 < permits rl \<and> permits rl \<le> length (prune now rl)"
    then show "acquire now rl
            = acquire (hd (prune now rl) + periodMs rl) (rl\<lparr> requestQueue := prune now rl \<rparr>)"
      using acquire_full by simp
    from full show "now < hd (prune now rl) + periodMs rl"
      using acquire_step_full [of rl now] by simp
    show "hd (prune now rl) \<notin> set (prune (hd (prune now rl) + periodMs rl) rl)"
      by (simp add: prune_def)
  }
  {
    assume "length (prune now rl) < permits rl"
    then show "acquire now rl = (now, rl\<lparr> requestQueue := prune now rl @ [now] \<rparr>)"
      by (simp add: acquire.simps [of now rl] acquire_step_free)
  }
qed

lemma window_bound_example:
  "fst (acquire_all [0, 10, 20] 0 (new_RateLimiter 2 1000)) = [0, 10, 1000]
   \<and> window_count 1000 1000 (fst (acquire_all [0, 10, 20] 0 (new_RateLimiter 2 1000))) \<le> 2
   \<and> window_count 1000 1000 (fst (run_steps [0, 10, 20, 1000] (new_RateLimiter 2 1000))) \<le> 2
   \<and> acquire 20 \<lparr> permits = 2, periodMs = 1000, requestQueue = [0, 10] \<rparr>
       = acquire 1000 \<lparr> permits = 2, periodMs = 1000, requestQueue = [0, 10] \<rparr>
   \<and> acquire 10 \<lparr> permits = 2, periodMs = 1000, requestQueue = [0] \<rparr>
       = (10, \<lparr> permits = 2, periodMs = 1000, requestQueue = [0, 10] \<rparr>)"
proof -
  have n: "(0::nat) < 2" by simp
  let ?full = "\<lparr> permits = 2, periodMs = 1000, requestQueue = [0, 10] \<rparr>"
  let ?free = "\<lparr> permits = 2, periodMs = 1000, requestQueue = [0] \<rparr>"
  note a = window_bound [OF n, where nows = "[0, 10, 20, 1000]" and W = 1000 and T = 1000
      and arrivals = "[0, 10, 20]" and clock = 0 and rl = ?full and now = 20]
  note b = window_bound [OF n, where nows = "[0, 10, 20, 1000]" and W = 1000 and T = 1000
      and arrivals = "[0, 10, 20]" and clock = 0 and rl = ?free and now = 10]
  have s: "sorted [0, 10, 20, 1000::int]" by simp
  have pf: "prune 20 ?full = [0, 10]" "prune 10 ?free = [0]" by (simp_all add: prune_def)
  have e: "fst (acquire_all [0, 10, 20] 0 (new_RateLimiter 2 1000)) = [0, 10, 1000]"
    by (simp add: acquire.simps acquire_step_def prune_def new_RateLimiter_def Let_def)
  from a s pf have "acquire 20 ?full = acquire 1000 ?full"
    by simp
  moreover from b pf have "acquire 10 ?free = (10, ?free\<lparr> requestQueue := [0, 10] \<rparr>)"
    by simp
  moreover from a s have
    "window_count 1000 1000 (fst (acquire_all [0, 10, 20] 0 (new_RateLimiter 2 1000))) \<le> 2"
    "window_count 1000 1000 (fst (run_steps [0, 10, 20, 1000] (new_RateLimiter 2 1000))) \<le> 2"
    by simp_all
  ultimately show ?thesis using e by simp
qed

text \<open>The clock matters: with readings that go back in time (0, 400, 1400, 500) a
  limiter of 2 permits per 1000 ms records all four requests, and three of them lie in
  the window that ends at 500.\<close>

lemma clock_set_back:
  "fst (run_steps [0, 400, 1400, 500] (new_RateLimiter 2 1000)) = [0, 400, 1400, 500]
   \<and> window_count 1000 500 (fst (run_steps [0, 400, 1400, 500] (new_RateLimiter 2 1000))) = 3"
  by (simp add: acquire_step_def prune_def new_RateLimiter_def window_count_def Let_def)

text \<open>
  C5 fails on the code for a limiter of 0 permits. On the first call the queue is empty,
  so \<open>requestQueue.length >= permits\<close> holds and \<open>acquire\<close> enters its branch for the
  reached limit; there \<open>requestQueue[0]\<close> is \<open>undefined\<close>, \<open>waitTime\<close> is \<open>NaN\<close>, the
  test \<open>waitTime > 0\<close> is false, and the request is recorded at once, without any wait:
  one request lies in the window of a limiter that permits none. A second call 1 ms
  later does wait, for the whole rest of the window, and is then recorded too.
\<close>

theorem C5_zero_permits_admits:
  "permits (new_RateLimiter 0 60000) \<le> length (prune 1000 (new_RateLimiter 0 60000))
   \<and> acquire 1000 (new_RateLimiter 0 60000)
       = (1000, \<lparr> permits = 0, periodMs = 60000, requestQueue = [1000] \<rparr>)
   \<and> window_count 60000 1000 (fst (acquire_all [1000] 0 (new_RateLimiter 0 60000)))
       > permits (new_RateLimiter 0 60000)
   \<and> fst (acquire_all [1000, 1001] 0 (new_RateLimiter 0 60000)) = [1000, 61000]"
proof -
  have a: "acquire 1000 (new_RateLimiter 0 60000)
             = (1000, \<lparr> permits = 0, periodMs = 60000, requestQueue = [1000] \<rparr>)"
    by (simp add: acquire.simps [of 1000] acquire_step_def prune_def new_RateLimiter_def)
  have b: "acquire 1001 \<lparr> permits = 0, periodMs = 60000, requestQueue = [1000] \<rparr>
             = (61000, \<lparr> permits = 0, periodMs = 60000, requestQueue = [61000] \<rparr>)"
    by (simp add: acquire.simps [of 1001] acquire.simps [of 61000] acquire_step_def prune_def
          Let_def)
  show ?thesis
    using a b by (simp add: window_count_def new_RateLimiter_def prune_def)
qed

section \<open>Regular expressions\<close>

text \<open>
  The JavaScript regular expressions of the extraction code, as data, and a
  backtracking matcher with the priorities of the language: alternatives left to
  right, greedy repetition longest first, lazy repetition shortest first, an iteration
  that consumes nothing is rejected, the first success wins.
\<close>

datatype cls = OneOf string | NoneOf string | AnyChar | Space | Digit

datatype rx =
    Lit char | Cls cls | Eps | Eos
  | Seq rx rx | Alt rx rx
  | Star rx | Lazy rx
  | Group nat rx | Look rx

definition dq :: char where "dq = CHR 0x22"
definition sq :: char where "sq = CHR 0x27"

text \<open>Equality of characters and membership in a class; \<open>ic\<close> is the \<open>i\<close> flag.\<close>

definition char_eq :: "bool \<Rightarrow> char \<Rightarrow> char \<Rightarrow> bool" where
  "char_eq ic x c = (if ic then lower_char x = lower_char c else x = c)"

fun in_cls :: "bool \<Rightarrow> cls \<Rightarrow> char \<Rightarrow> bool" where
  "in_cls ic (OneOf cs) x = (\<exists>c \<in> set cs. char_eq ic x c)"
| "in_cls ic (NoneOf cs) x = (\<not> (\<exists>c \<in> set cs. char_eq ic x c))"
| "in_cls ic AnyChar x = True"
| "in_cls ic Space x = is_js_space x"
| "in_cls ic Digit x = (48 \<le> (of_char x :: nat) \<and> (of_char x :: nat) \<le> 57)"

text \<open>What is left to match: expressions, the progress checks of the two
  repetitions, and the end of a capture group with the input at its start.\<close>

datatype frame = Rx rx | CheckStar rx nat | CheckLazy rx nat | Close nat string

type_synonym caps = "(nat \<times> string) list"

fun rx_weight :: "rx \<Rightarrow> nat" where
  "rx_weight (Seq a b) = 1 + rx_weight a + rx_weight b"
| "rx_weight (Alt a b) = 1 + rx_weight a + rx_weight b"
| "rx_weight (Star a) = 3 + 2 * rx_weight a"
| "rx_weight (Lazy a) = 3 + 2 * rx_weight a"
| "rx_weight (Group n a) = 2 + rx_weight a"
| "rx_weight (Look a) = 1 + rx_weight a"
| "rx_weight r = 1"

fun frame_weight :: "nat \<Rightarrow> frame \<Rightarrow> nat" where
  "frame_weight l (Rx r) = rx_weight r"
| "frame_weight l (CheckStar a n) = (if l < n then 4 + 2 * rx_weight a else 1)"
| "frame_weight l (CheckLazy a n) = (if l < n then 4 + 2 * rx_weight a else 1)"
| "frame_weight l (Close n start) = 1"

function rx_match :: "bool \<Rightarrow> frame list \<Rightarrow> string \<Rightarrow> caps \<Rightarrow> (string \<times> caps) option" where
  "rx_match ic [] s cs = Some (s, cs)"
| "rx_match ic (Rx (Lit c) # st) s cs =
     (case s of [] \<Rightarrow> None
      | x # xs \<Rightarrow> if char_eq ic x c then rx_match ic st xs cs else None)"
| "rx_match ic (Rx (Cls k) # st) s cs =
     (case s of [] \<Rightarrow> None
      | x # xs \<Rightarrow> if in_cls ic k x then rx_match ic st xs cs else None)"
| "rx_match ic (Rx Eps # st) s cs = rx_match ic st s cs"
| "rx_match ic (Rx Eos # st) s cs = (if s = [] then rx_match ic st s cs else None)"
| "rx_match ic (Rx (Seq a b) # st) s cs = rx_match ic (Rx a # Rx b # st) s cs"
| "rx_match ic (Rx (Alt a b) # st) s cs =
     (case rx_match ic (Rx a # st) s cs of
        Some r \<Rightarrow> Some r
      | None \<Rightarrow> rx_match ic (Rx b # st) s cs)"
| "rx_match ic (Rx (Star a) # st) s cs =
     (case rx_match ic (Rx a # CheckStar a (length s) # st) s cs of
        Some r \<Rightarrow> Some r
      | None \<Rightarrow> rx_match ic st s cs)"
| "rx_match ic (CheckStar a n # st) s cs =
     (if length s < n then rx_match ic (Rx (Star a) # st) s cs else None)"
| "rx_match ic (Rx (Lazy a) # st) s cs =
     (case rx_match ic st s cs of
        Some r \<Rightarrow> Some r
      | None \<Rightarrow> rx_match ic (Rx a # CheckLazy a (length s) # st) s cs)"
| "rx_match ic (CheckLazy a n # st) s cs =
     (if length s < n then rx_match ic (Rx (Lazy a) # st) s cs else None)"
| "rx_match ic (Rx (Group n a) # st) s cs = rx_match ic (Rx a # Close n s # st) s cs"
| "rx_match ic (Close n start # st) s cs =
     rx_match ic st s ((n, take (length start - length s) start) # cs)"
| "rx_match ic (Rx (Look a) # st) s cs =
     (case rx_match ic [Rx a] s cs of
        Some (rest, cs') \<Rightarrow> rx_match ic st s cs'
      | None \<Rightarrow> None)"
  by pat_completeness auto
termination
  by (relation "measures [\<lambda>(ic, st, s, cs). length s,
                          \<lambda>(ic, st, s, cs). sum_list (map (frame_weight (length s)) st)]") auto

declare rx_match.simps [simp del]

text \<open>A match of the whole expression at the start of \<open>s\<close>: the matched text, the
  captures and the rest of the input.\<close>

definition match_here :: "bool \<Rightarrow> rx \<Rightarrow> string \<Rightarrow> (string \<times> caps \<times> string) option" where
  "match_here ic r s =
     (case rx_match ic [Rx r] s [] of
        None \<Rightarrow> None
      | Some (rest, cs) \<Rightarrow> Some (take (length s - length rest) s, cs, rest))"

text \<open>The leftmost match in \<open>s\<close>, tried at every position up to the end.\<close>

fun rx_search :: "bool \<Rightarrow> rx \<Rightarrow> string \<Rightarrow> (string \<times> caps \<times> string) option" where
  "rx_search ic r [] = match_here ic r []"
| "rx_search ic r (x # xs) =
     (case match_here ic r (x # xs) of
        Some m \<Rightarrow> Some m
      | None \<Rightarrow> rx_search ic r xs)"

definition str :: "string \<Rightarrow> rx" where
  "str s = foldr (\<lambda>c r. Seq (Lit c) r) s Eps"

definition seqs :: "rx list \<Rightarrow> rx" where
  "seqs rs = foldr Seq rs Eps"

definition alts :: "rx list \<Rightarrow> rx" where
  "alts rs = foldr Alt (butlast rs) (last rs)"

definition Plus :: "rx \<Rightarrow> rx" where
  "Plus r = Seq r (Star r)"

definition Opt :: "rx \<Rightarrow> rx" where
  "Opt r = Alt r Eps"


text \<open>\<open>String.prototype.match\<close> with a list of alternatives joined by \<open>||\<close>: the
  first expression that matches somewhere decides.\<close>

fun first_match :: "bool \<Rightarrow> rx list \<Rightarrow> string \<Rightarrow> (string \<times> caps \<times> string) option" where
  "first_match ic [] s = None"
| "first_match ic (r # rs) s =
     (case rx_search ic r s of
        Some m \<Rightarrow> Some m
      | None \<Rightarrow> first_match ic rs s)"

text \<open>Capture group \<open>n\<close> of a match (\<open>match[n]\<close>).\<close>

definition cap :: "string \<times> caps \<times> string \<Rightarrow> nat \<Rightarrow> string option" where
  "cap m n = map_of (fst (snd m)) n"


section \<open>Extraction (Bato backend)\<close>

subsection \<open>extractAll\<close>

text \<open>
  The loop \<open>while ((match = regex.exec(html)) !== null) matches.push(match)\<close> on a
  global expression: each \<open>exec\<close> searches from \<open>lastIndex\<close>, the end of the previous
  match. A match that ends where the search began leaves \<open>lastIndex\<close> in place, and the
  loop never ends: the model answers \<open>None\<close> then. Each match is kept as its text
  (\<open>match[0]\<close>) and its captures.
\<close>

fun exec_loop :: "rx \<Rightarrow> string \<Rightarrow> (string \<times> caps) list option" where
  "exec_loop r s =
     (case rx_search True r s of
        None \<Rightarrow> Some []
      | Some (m, cs, rest) \<Rightarrow>
          if length rest < length s
          then map_option ((#) (m, cs)) (exec_loop r rest)
          else None)"

declare exec_loop.simps [simp del]

definition extractAll :: "string \<Rightarrow> rx \<Rightarrow> (string \<times> caps) list option" where
  "extractAll html pattern = exec_loop pattern html"

subsection \<open>The expressions of the listing extraction\<close>

definition quote :: rx where "quote = Cls (OneOf [dq, sq])"
definition not_quote :: rx where "not_quote = Cls (NoneOf [dq, sq])"
definition not_gt :: rx where "not_gt = Cls (NoneOf ''>'')"
definition not_lt :: rx where "not_lt = Cls (NoneOf ''<'')"

text \<open>\<open>class=["'][^"']*(?:w1|w2|...)\<close>\<close>

definition class_with :: "string list \<Rightarrow> rx" where
  "class_with ws = seqs [str ''class='', quote, Star not_quote, alts (map str ws)]"

text \<open>The three \<open>mangaPatterns\<close> of \<open>searchBatoManga\<close>, in their order:
  \<^verbatim>\<open><div[^>]*class=["'][^"']*(?:item-|manga-|series-)[^"']*["'][^>]*>[\s\S]*?(?=<div[^>]*class=["'][^"']*(?:item-|manga-|series-)|$)\<close>,
  \<^verbatim>\<open><a[^>]*class=["'][^"']*(?:item|card)[^"']*["'][^>]*>[\s\S]*?<\/a>\<close> and
  \<^verbatim>\<open><article[^>]*>[\s\S]*?<\/article>\<close>.\<close>

definition div_card_rx :: rx where
  "div_card_rx =
     seqs [str ''<div'', Star not_gt, class_with [''item-'', ''manga-'', ''series-''],
           Star not_quote, quote, Star not_gt, str ''>'', Lazy (Cls AnyChar),
           Look (Alt (seqs [str ''<div'', Star not_gt,
                           class_with [''item-'', ''manga-'', ''series-'']]) Eos)]"

definition anchor_card_rx :: rx where
  "anchor_card_rx =
     seqs [str ''<a'', Star not_gt, class_with [''item'', ''card''],
           Star not_quote, quote, Star not_gt, str ''>'', Lazy (Cls AnyChar), str ''</a>'']"

definition article_rx :: rx where
  "article_rx =
     seqs [str ''<article'', Star not_gt, str ''>'', Lazy (Cls AnyChar), str ''</article>'']"

definition mangaPatterns :: "rx list" where
  "mangaPatterns = [div_card_rx, anchor_card_rx, article_rx]"

text \<open>The expressions of \<open>parseMangaCard\<close>. Identifier:
  \<^verbatim>\<open>href=["']\/series\/([^"'\/]+)[^"']*["']\<close>,
  \<^verbatim>\<open>href=["']([^"']*\/title\/[^"']+)["']\<close>,
  \<^verbatim>\<open>href=["']([^"']*\/series\/[^"']+)["']\<close>.\<close>

definition href_series_id_rx :: rx where
  "href_series_id_rx =
     seqs [str ''href='', quote, str ''/series/'',
           Group 1 (Plus (Cls (NoneOf [dq, sq, CHR ''/'']))), Star not_quote, quote]"

definition href_path_rx :: "string \<Rightarrow> rx" where
  "href_path_rx dir =
     seqs [str ''href='', quote, Group 1 (seqs [Star not_quote, str dir, Plus not_quote]), quote]"

definition url_patterns :: "rx list" where
  "url_patterns = [href_series_id_rx, href_path_rx ''/title/'', href_path_rx ''/series/'']"

text \<open>Title:
  \<^verbatim>\<open>class=["'][^"']*(?:title|name)[^"']*["'][^>]*>([^<]+)<\<close>,
  \<^verbatim>\<open>alt=["']([^"']+)["']\<close>, \<^verbatim>\<open>title=["']([^"']+)["']\<close>.\<close>

definition attr_value_rx :: "string \<Rightarrow> rx" where
  "attr_value_rx a = seqs [str a, str ''='', quote, Group 1 (Plus not_quote), quote]"

definition title_patterns :: "rx list" where
  "title_patterns =
     [seqs [class_with [''title'', ''name''], Star not_quote, quote, Star not_gt, str ''>'',
            Group 1 (Plus not_lt), str ''<''],
      attr_value_rx ''alt'',
      attr_value_rx ''title'']"

text \<open>Cover:
  \<^verbatim>\<open>src=["']([^"']*(?:cover|thumb|image)[^"']*)["']\<close>,
  \<^verbatim>\<open><img[^>]*data-src=["']([^"']+)["']\<close>,
  \<^verbatim>\<open><img[^>]*src=["']([^"']+)["']\<close>.\<close>

definition img_attr_rx :: "string \<Rightarrow> rx" where
  "img_attr_rx a = seqs [str ''<img'', Star not_gt, attr_value_rx a]"

definition cover_patterns :: "rx list" where
  "cover_patterns =
     [seqs [str ''src='', quote,
            Group 1 (seqs [Star not_quote, alts [str ''cover'', str ''thumb'', str ''image''],
                           Star not_quote]),
            quote],
      img_attr_rx ''data-src'',
      img_attr_rx ''src'']"

text \<open>Chapter count: \<^verbatim>\<open>(\d+)\s*(?:ch|chapters?)\<close>.\<close>

definition chapters_rx :: rx where
  "chapters_rx =
     seqs [Group 1 (Plus (Cls Digit)), Star (Cls Space),
           Alt (str ''ch'') (Seq (str ''chapter'') (Opt (Lit CHR ''s'')))]"

subsection \<open>parseMangaCard\<close>

text \<open>\<open>String.prototype.split\<close> on one character.\<close>

fun split_on :: "char \<Rightarrow> string \<Rightarrow> string list" where
  "split_on d [] = [[]]"
| "split_on d (c # cs) =
     (case split_on d cs of
        [] \<Rightarrow> [[c]]
      | seg # segs \<Rightarrow> if c = d then [] # seg # segs else (c # seg) # segs)"

text \<open>\<open>url.split('/').filter(Boolean).pop()\<close>: the last non-empty segment.\<close>

definition last_segment :: "string \<Rightarrow> string option" where
  "last_segment url =
     (case filter (\<lambda>seg. seg \<noteq> []) (split_on CHR ''/'' url) of
        [] \<Rightarrow> None
      | segs \<Rightarrow> Some (last segs))"

text \<open>\<open>parseInt\<close> of a non-empty string of decimal digits, as the exact number (the
  code's value is the double nearest to it, the same number below \<open>2\<^sup>5\<^sup>3\<close>).\<close>

definition parseInt :: "string \<Rightarrow> nat" where
  "parseInt ds = foldl (\<lambda>n c. 10 * n + (of_char c - 48)) 0 ds"

record MangaCard =
  card_id :: "string option"
  card_url :: "string option"
  card_title :: string
  card_coverUrl :: "string option"
  card_chapters :: "nat option"

text \<open>
  \<open>parseMangaCard\<close>; \<open>current\<close> is \<open>CURRENT_BATO_URL\<close>. The result is \<open>None\<close>
  for the \<open>null\<close> of the \<open>catch\<close> block: the only statements that can throw on a
  string are the method calls on \<open>urlMatch[1]\<close> and \<open>titleMatch[1]\<close>, when the group
  is undefined.
\<close>

definition card_id_url :: "string \<Rightarrow> (string option \<times> string option) option" where
  "card_id_url html =
     (case first_match True url_patterns html of
        None \<Rightarrow> Some (None, None)
      | Some urlMatch \<Rightarrow>
         (case cap urlMatch 1 of
            None \<Rightarrow> None
          | Some g \<Rightarrow>
              if startsWith g ''/'' then Some (last_segment g, Some g)
              else if includes_js g ''/series/'' \<or> includes_js g ''/title/''
              then Some (last_segment g, Some g)
              else Some (Some g, Some (''/series/'' @ g))))"

definition card_title_of :: "string \<Rightarrow> string option" where
  "card_title_of html =
     (case first_match True title_patterns html of
        Some titleMatch \<Rightarrow> map_option trim (cap titleMatch 1)
      | None \<Rightarrow> Some ''Unknown Title'')"

definition absolute_cover :: "string \<Rightarrow> string \<Rightarrow> string" where
  "absolute_cover current coverUrl =
     (if coverUrl \<noteq> [] \<and> \<not> startsWith coverUrl ''http''
      then (if startsWith coverUrl ''/'' then current @ coverUrl else current @ ''/'' @ coverUrl)
      else coverUrl)"

definition parseMangaCard :: "string \<Rightarrow> string \<Rightarrow> MangaCard option" where
  "parseMangaCard current html =
     (case card_id_url html of
        None \<Rightarrow> None
      | Some (ident, url) \<Rightarrow>
         (case card_title_of html of
            None \<Rightarrow> None
          | Some title \<Rightarrow>
             (let coverUrl = (case first_match True cover_patterns html of
                                Some coverMatch \<Rightarrow> map_option (absolute_cover current) (cap coverMatch 1)
                              | None \<Rightarrow> None);
                  chapters = (case rx_search True chapters_rx html of
                                Some chaptersMatch \<Rightarrow> map_option parseInt (cap chaptersMatch 1)
                              | None \<Rightarrow> None)
              in Some \<lparr> card_id = ident,
                        card_url = map_option (\<lambda>u. if startsWith u ''http'' then u else current @ u) url,
                        card_title = title, card_coverUrl = coverUrl, card_chapters = chapters \<rparr>)))"

subsection \<open>searchBatoManga\<close>

record ListingRecord =
  rec_id :: string
  rec_title :: string
  rec_coverUrl :: "string option"
  rec_description :: string
  rec_author :: "string option"
  rec_status :: string

text \<open>The first of the patterns that yields at least one match decides; the matches
  of the last pattern tried remain otherwise.\<close>

fun find_cards :: "rx list \<Rightarrow> string \<Rightarrow> (string \<times> caps) list option" where
  "find_cards [] html = Some []"
| "find_cards (pattern # patterns) html =
     (case extractAll html pattern of
        None \<Rightarrow> None
      | Some [] \<Rightarrow> find_cards patterns html
      | Some cards \<Rightarrow> Some cards)"

text \<open>\<open>if (manga && manga.id) results.push(...)\<close>: a missing and an empty id are
  falsy.\<close>

definition listing_of :: "MangaCard option \<Rightarrow> ListingRecord option" where
  "listing_of parsed =
     (case parsed of
        None \<Rightarrow> None
      | Some manga \<Rightarrow>
         (case card_id manga of
            None \<Rightarrow> None
          | Some i \<Rightarrow>
              if i = [] then None
              else Some \<lparr> rec_id = i, rec_title = card_title manga,
                          rec_coverUrl = card_coverUrl manga, rec_description = '''',
                          rec_author = None, rec_status = ''unknown'' \<rparr>))"

text \<open>The part of \<open>searchBatoManga\<close> that works on the markup (\<open>None\<close>: it does
  not return).\<close>

definition search_results :: "string \<Rightarrow> string \<Rightarrow> ListingRecord list option" where
  "search_results current html =
     (case find_cards mangaPatterns html of
        None \<Rightarrow> None
      | Some mangaCards \<Rightarrow>
          Some (take 20 (List.map_filter (\<lambda>cardMatch. listing_of (parseMangaCard current (fst cardMatch)))
                          mangaCards)))"

text \<open>\<open>searchBatoManga\<close>: the markup comes from \<open>tryBatoDomains\<close>; every exception
  of the body is answered with the empty list.\<close>

definition searchBatoManga :: "string \<Rightarrow> BatoModule \<Rightarrow> ListingRecord list option \<times> BatoModule" where
  "searchBatoManga query st =
     (case tryBatoDomains (''/search?word='' @ encodeURIComponent query) st of
        (Inl e, st') \<Rightarrow> (Some [], st')
      | (Inr response, st') \<Rightarrow> (search_results (CURRENT_BATO_URL st') (body response), st'))"

definition attr :: "string \<Rightarrow> string \<Rightarrow> string" where
  "attr a v = a @ ''='' @ [dq] @ v @ [dq]"

text \<open>Listing markup for the scenarios: every block opens with
  \<^verbatim>\<open><div class="item-card">\<close>. Block A and block B carry a link and a cover image,
  block X has an image but no link, block C has a link but no image.\<close>

definition card_open :: string where
  "card_open = ''<div '' @ attr ''class'' ''item-card'' @ ''>''"

definition block_a :: string where
  "block_a = card_open @ ''<a '' @ attr ''href'' ''/series/101/alpha'' @ ''><img ''
       @ attr ''src'' ''/covers/a.jpg'' @ '' '' @ attr ''alt'' ''A'' @ ''></a></div>''"

definition block_b :: string where
  "block_b = card_open @ ''<a '' @ attr ''href'' ''/title/102-beta'' @ ''><img ''
       @ attr ''src'' ''https://cdn.example.org/thumb/b.jpg'' @ '' '' @ attr ''alt'' ''B''
       @ ''></a></div>''"

definition block_x :: string where
  "block_x = card_open @ ''<img '' @ attr ''src'' ''/covers/x.jpg'' @ '' '' @ attr ''alt'' ''X''
       @ ''></div>''"

definition block_c :: string where
  "block_c = card_open @ ''<a '' @ attr ''class'' ''name'' @ '' '' @ attr ''href'' ''/series/103''
       @ ''>C</a></div>''"

definition listing_fixture :: string where
  "listing_fixture = block_a @ block_b @ block_x @ block_c"

section \<open>Properties of the matcher\<close>

subsection \<open>Evaluation on literal text\<close>

text \<open>Lower case of the printable ASCII characters, and the two repetitions on a
  character class, which consume one character per iteration.\<close>

lemma lower_char_ascii:
  "lower_char (CHR '' '') = CHR '' ''"
  "lower_char (CHR ''!'') = CHR ''!''"
  "lower_char (CHR 0x22) = CHR 0x22"
  "lower_char (CHR ''#'') = CHR ''#''"
  "lower_char (CHR ''$'') = CHR ''$''"
  "lower_char (CHR ''%'') = CHR ''%''"
  "lower_char (CHR ''&'') = CHR ''&''"
  "lower_char (CHR 0x27) = CHR 0x27"
  "lower_char (CHR ''('') = CHR ''(''"
  "lower_char (CHR '')'') = CHR '')''"
  "lower_char (CHR ''*'') = CHR ''*''"
  "lower_char (CHR ''+'') = CHR ''+''"
  "lower_char (CHR '','') = CHR '',''"
  "lower_char (CHR ''-'') = CHR ''-''"
  "lower_char (CHR ''.'') = CHR ''.''"
  "lower_char (CHR ''/'') = CHR ''/''"
  "lower_char (CHR ''0'') = CHR ''0''"
  "lower_char (CHR ''1'') = CHR ''1''"
  "lower_char (CHR ''2'') = CHR ''2''"
  "lower_char (CHR ''3'') = CHR ''3''"
  "lower_char (CHR ''4'') = CHR ''4''"
  "lower_char (CHR ''5'') = CHR ''5''"
  "lower_char (CHR ''6'') = CHR ''6''"
  "lower_char (CHR ''7'') = CHR ''7''"
  "lower_char (CHR ''8'') = CHR ''8''"
  "lower_char (CHR ''9'') = CHR ''9''"
  "lower_char (CHR '':'') = CHR '':''"
  "lower_char (CHR '';'') = CHR '';''"
  "lower_char (CHR ''<'') = CHR ''<''"
  "lower_char (CHR ''='') = CHR ''=''"
  "lower_char (CHR ''>'') = CHR ''>''"
  "lower_char (CHR ''?'') = CHR ''?''"
  "lower_char (CHR ''@'') = CHR ''@''"
  "lower_char (CHR ''A'') = CHR ''a''"
  "lower_char (CHR ''B'') = CHR ''b''"
  "lower_char (CHR ''C'') = CHR ''c''"
  "lower_char (CHR ''D'') = CHR ''d''"
  "lower_char (CHR ''E'') = CHR ''e''"
  "lower_char (CHR ''F'') = CHR ''f''"
  "lower_char (CHR ''G'') = CHR ''g''"
  "lower_char (CHR ''H'') = CHR ''h''"
  "lower_char (CHR ''I'') = CHR ''i''"
  "lower_char (CHR ''J'') = CHR ''j''"
  "lower_char (CHR ''K'') = CHR ''k''"
  "lower_char (CHR ''L'') = CHR ''l''"
  "lower_char (CHR ''M'') = CHR ''m''"
  "lower_char (CHR ''N'') = CHR ''n''"
  "lower_char (CHR ''O'') = CHR ''o''"
  "lower_char (CHR ''P'') = CHR ''p''"
  "lower_char (CHR ''Q'') = CHR ''q''"
  "lower_char (CHR ''R'') = CHR ''r''"
  "lower_char (CHR ''S'') = CHR ''s''"
  "lower_char (CHR ''T'') = CHR ''t''"
  "lower_char (CHR ''U'') = CHR ''u''"
  "lower_char (CHR ''V'') = CHR ''v''"
  "lower_char (CHR ''W'') = CHR ''w''"
  "lower_char (CHR ''X'') = CHR ''x''"
  "lower_char (CHR ''Y'') = CHR ''y''"
  "lower_char (CHR ''Z'') = CHR ''z''"
  "lower_char (CHR ''['') = CHR ''[''"
  "lower_char (CHR 0x5C) = CHR 0x5C"
  "lower_char (CHR '']'') = CHR '']''"
  "lower_char (CHR ''^'') = CHR ''^''"
  "lower_char (CHR ''_'') = CHR ''_''"
  "lower_char (CHR 0x60) = CHR 0x60"
  "lower_char (CHR ''a'') = CHR ''a''"
  "lower_char (CHR ''b'') = CHR ''b''"
  "lower_char (CHR ''c'') = CHR ''c''"
  "lower_char (CHR ''d'') = CHR ''d''"
  "lower_char (CHR ''e'') = CHR ''e''"
  "lower_char (CHR ''f'') = CHR ''f''"
  "lower_char (CHR ''g'') = CHR ''g''"
  "lower_char (CHR ''h'') = CHR ''h''"
  "lower_char (CHR ''i'') = CHR ''i''"
  "lower_char (CHR ''j'') = CHR ''j''"
  "lower_char (CHR ''k'') = CHR ''k''"
  "lower_char (CHR ''l'') = CHR ''l''"
  "lower_char (CHR ''m'') = CHR ''m''"
  "lower_char (CHR ''n'') = CHR ''n''"
  "lower_char (CHR ''o'') = CHR ''o''"
  "lower_char (CHR ''p'') = CHR ''p''"
  "lower_char (CHR ''q'') = CHR ''q''"
  "lower_char (CHR ''r'') = CHR ''r''"
  "lower_char (CHR ''s'') = CHR ''s''"
  "lower_char (CHR ''t'') = CHR ''t''"
  "lower_char (CHR ''u'') = CHR ''u''"
  "lower_char (CHR ''v'') = CHR ''v''"
  "lower_char (CHR ''w'') = CHR ''w''"
  "lower_char (CHR ''x'') = CHR ''x''"
  "lower_char (CHR ''y'') = CHR ''y''"
  "lower_char (CHR ''z'') = CHR ''z''"
  "lower_char (CHR ''{'') = CHR ''{''"
  "lower_char (CHR ''|'') = CHR ''|''"
  "lower_char (CHR ''}'') = CHR ''}''"
  "lower_char (CHR ''~'') = CHR ''~''"
  by code_simp+



lemma star_cls:
  "rx_match ic (Rx (Star (Cls k)) # st) [] cs = rx_match ic st [] cs"
  "rx_match ic (Rx (Star (Cls k)) # st) (x # xs) cs =
     (if in_cls ic k x
      then (case rx_match ic (Rx (Star (Cls k)) # st) xs cs of
              Some r \<Rightarrow> Some r
            | None \<Rightarrow> rx_match ic st (x # xs) cs)
      else rx_match ic st (x # xs) cs)"
  by (simp_all add: rx_match.simps)

lemma lazy_cls:
  "rx_match ic (Rx (Lazy (Cls k)) # st) [] cs = rx_match ic st [] cs"
  "rx_match ic (Rx (Lazy (Cls k)) # st) (x # xs) cs =
     (case rx_match ic st (x # xs) cs of
        Some r \<Rightarrow> Some r
      | None \<Rightarrow> if in_cls ic k x then rx_match ic (Rx (Lazy (Cls k)) # st) xs cs else None)"
  by (simp_all add: rx_match.simps split: option.splits)

lemmas rx_eval =
  rx_match.simps(1-7,12-14) star_cls lazy_cls match_here_def rx_search.simps first_match.simps
  char_eq_def lower_char_ascii in_cls.simps cap_def
  str_def seqs_def alts_def Plus_def Opt_def quote_def not_quote_def not_gt_def not_lt_def
  class_with_def dq_def sq_def


subsection \<open>Progress of a match\<close>

text \<open>An expression that cannot match the empty string (a sufficient syntactic
  test).\<close>

fun nullable :: "rx \<Rightarrow> bool" where
  "nullable (Lit c) = False"
| "nullable (Cls k) = False"
| "nullable (Seq a b) = (nullable a \<and> nullable b)"
| "nullable (Alt a b) = (nullable a \<or> nullable b)"
| "nullable (Group n a) = nullable a"
| "nullable r = True"

fun consuming :: "frame \<Rightarrow> bool" where
  "consuming (Rx r) = (\<not> nullable r)"
| "consuming f = False"

lemma rx_match_progress:
  "rx_match ic st s cs = Some (rest, cs') \<Longrightarrow>
     length rest \<le> length s \<and> ((\<exists>f \<in> set st. consuming f) \<longrightarrow> length rest < length s)"
proof (induction ic st s cs arbitrary: rest cs' rule: rx_match.induct)
  case (1 ic s cs)
  then show ?case by (simp add: rx_match.simps(1))
next
  case (2 ic c st s cs)
  show ?case
  proof (cases s)
    case Nil
    with "2.prems" show ?thesis by (simp add: rx_match.simps(2))
  next
    case (Cons x xs)
    with "2.prems" have eq: "char_eq ic x c" and m: "rx_match ic st xs cs = Some (rest, cs')"
      by (simp_all add: rx_match.simps(2) split: if_splits)
    from "2.IH" [OF Cons eq m] Cons show ?thesis by simp
  qed
next
  case (3 ic k st s cs)
  show ?case
  proof (cases s)
    case Nil
    with "3.prems" show ?thesis by (simp add: rx_match.simps(3))
  next
    case (Cons x xs)
    with "3.prems" have eq: "in_cls ic k x" and m: "rx_match ic st xs cs = Some (rest, cs')"
      by (simp_all add: rx_match.simps(3) split: if_splits)
    from "3.IH" [OF Cons eq m] Cons show ?thesis by simp
  qed
next
  case (4 ic st s cs)
  from "4.prems" have "rx_match ic st s cs = Some (rest, cs')"
    by (simp add: rx_match.simps(4))
  from "4.IH" [OF this] show ?case by simp
next
  case (5 ic st s cs)
  from "5.prems" have e: "s = []" and m: "rx_match ic st s cs = Some (rest, cs')"
    by (simp_all add: rx_match.simps(5) split: if_splits)
  from "5.IH" [OF e m] show ?case by simp
next
  case (6 ic a b st s cs)
  from "6.prems" have "rx_match ic (Rx a # Rx b # st) s cs = Some (rest, cs')"
    by (simp add: rx_match.simps(6))
  from "6.IH" [OF this] show ?case by auto
next
  case (7 ic a b st s cs)
  show ?case
  proof (cases "rx_match ic (Rx a # st) s cs")
    case None
    with "7.prems" have "rx_match ic (Rx b # st) s cs = Some (rest, cs')"
      by (simp add: rx_match.simps(7))
    from "7.IH"(2) [OF None this] show ?thesis by auto
  next
    case (Some r)
    with "7.prems" have "rx_match ic (Rx a # st) s cs = Some (rest, cs')"
      by (simp add: rx_match.simps(7))
    from "7.IH"(1) [OF this] show ?thesis by auto
  qed
next
  case (8 ic a st s cs)
  show ?case
  proof (cases "rx_match ic (Rx a # CheckStar a (length s) # st) s cs")
    case None
    with "8.prems" have "rx_match ic st s cs = Some (rest, cs')"
      by (simp add: rx_match.simps(8))
    from "8.IH"(2) [OF None this] show ?thesis by auto
  next
    case (Some r)
    with "8.prems" have "rx_match ic (Rx a # CheckStar a (length s) # st) s cs = Some (rest, cs')"
      by (simp add: rx_match.simps(8))
    from "8.IH"(1) [OF this] show ?thesis by auto
  qed
next
  case (9 ic a n st s cs)
  from "9.prems" have l: "length s < n" and m: "rx_match ic (Rx (Star a) # st) s cs = Some (rest, cs')"
    by (simp_all add: rx_match.simps(9) split: if_splits)
  from "9.IH" [OF l m] show ?case by auto
next
  case (10 ic a st s cs)
  show ?case
  proof (cases "rx_match ic st s cs")
    case None
    with "10.prems" have "rx_match ic (Rx a # CheckLazy a (length s) # st) s cs = Some (rest, cs')"
      by (simp add: rx_match.simps(10))
    from "10.IH"(2) [OF None this] show ?thesis by auto
  next
    case (Some r)
    with "10.prems" have "rx_match ic st s cs = Some (rest, cs')"
      by (simp add: rx_match.simps(10))
    from "10.IH"(1) [OF this] show ?thesis by auto
  qed
next
  case (11 ic a n st s cs)
  from "11.prems" have l: "length s < n" and m: "rx_match ic (Rx (Lazy a) # st) s cs = Some (rest, cs')"
    by (simp_all add: rx_match.simps(11) split: if_splits)
  from "11.IH" [OF l m] show ?case by auto
next
  case (12 ic n a st s cs)
  from "12.prems" have "rx_match ic (Rx a # Close n s # st) s cs = Some (rest, cs')"
    by (simp add: rx_match.simps(12))
  from "12.IH" [OF this] show ?case by auto
next
  case (13 ic n start st s cs)
  from "13.prems" have
    "rx_match ic st s ((n, take (length start - length s) start) # cs) = Some (rest, cs')"
    by (simp add: rx_match.simps(13))
  from "13.IH" [OF this] show ?case by auto
next
  case (14 ic a st s cs)
  from "14.prems" obtain r1 cs1 where
    l: "rx_match ic [Rx a] s cs = Some (r1, cs1)" and m: "rx_match ic st s cs1 = Some (rest, cs')"
    by (auto simp: rx_match.simps(14) split: option.splits)
  from "14.IH"(2) [OF l refl m] show ?case by auto
qed


lemma match_here_progress:
  "match_here ic r s = Some (m, cs, rest) \<Longrightarrow> \<not> nullable r \<Longrightarrow> length rest < length s"
  using rx_match_progress [of ic "[Rx r]" s "[]"]
  by (auto simp: match_here_def split: option.splits)

lemma match_here_rest: "match_here ic r s = Some (m, cs, rest) \<Longrightarrow> length rest \<le> length s"
  using rx_match_progress [of ic "[Rx r]" s "[]"]
  by (auto simp: match_here_def split: option.splits)

lemma rx_search_progress:
  "rx_search ic r s = Some (m, cs, rest) \<Longrightarrow> \<not> nullable r \<Longrightarrow> length rest < length s"
proof (induction s)
  case Nil
  then show ?case using match_here_progress [of ic r "[]"] by simp
next
  case (Cons x xs)
  show ?case
  proof (cases "match_here ic r (x # xs)")
    case None
    with Cons.prems have "rx_search ic r xs = Some (m, cs, rest)" by simp
    from Cons.IH [OF this Cons.prems(2)] show ?thesis by simp
  next
    case (Some a)
    with Cons.prems have "match_here ic r (x # xs) = Some (m, cs, rest)" by simp
    from match_here_progress [OF this Cons.prems(2)] show ?thesis .
  qed
qed

lemma exec_loop_total: "\<not> nullable r \<Longrightarrow> \<exists>ms. exec_loop r s = Some ms"
proof (induction r s rule: exec_loop.induct)
  case (1 r s)
  show ?case
  proof (cases "rx_search True r s")
    case None
    then show ?thesis by (simp add: exec_loop.simps [of r s])
  next
    case (Some found)
    obtain m cs rest where f: "found = (m, cs, rest)" by (cases found)
    have l: "length rest < length s"
      using rx_search_progress [of True r s m cs rest] Some f "1.prems" by simp
    from "1.IH" [OF Some f [symmetric] refl l "1.prems"]
    obtain ms where "exec_loop r rest = Some ms" by blast
    then show ?thesis using Some f l by (simp add: exec_loop.simps [of r s])
  qed
qed

subsection \<open>Capture groups that every match defines\<close>

fun captures :: "nat \<Rightarrow> rx \<Rightarrow> bool" where
  "captures n (Group m a) = (m = n \<or> captures n a)"
| "captures n (Seq a b) = (captures n a \<or> captures n b)"
| "captures n (Alt a b) = (captures n a \<and> captures n b)"
| "captures n (Look a) = captures n a"
| "captures n r = False"

fun frame_captures :: "nat \<Rightarrow> frame \<Rightarrow> bool" where
  "frame_captures n (Rx r) = captures n r"
| "frame_captures n (Close m start) = (m = n)"
| "frame_captures n f = False"

lemma rx_match_captures:
  "rx_match ic st s cs = Some (rest, cs') \<Longrightarrow>
     n \<in> fst ` set cs \<or> (\<exists>f \<in> set st. frame_captures n f) \<Longrightarrow> n \<in> fst ` set cs'"
proof (induction ic st s cs arbitrary: rest cs' rule: rx_match.induct)
  case (1 ic s cs)
  then show ?case by (simp add: rx_match.simps(1))
next
  case (2 ic c st s cs)
  show ?case
  proof (cases s)
    case Nil
    with "2.prems" show ?thesis by (simp add: rx_match.simps(2))
  next
    case (Cons x xs)
    with "2.prems" have eq: "char_eq ic x c" and m: "rx_match ic st xs cs = Some (rest, cs')"
      by (simp_all add: rx_match.simps(2) split: if_splits)
    from "2.IH" [OF Cons eq m] "2.prems"(2) show ?thesis by simp
  qed
next
  case (3 ic k st s cs)
  show ?case
  proof (cases s)
    case Nil
    with "3.prems" show ?thesis by (simp add: rx_match.simps(3))
  next
    case (Cons x xs)
    with "3.prems" have eq: "in_cls ic k x" and m: "rx_match ic st xs cs = Some (rest, cs')"
      by (simp_all add: rx_match.simps(3) split: if_splits)
    from "3.IH" [OF Cons eq m] "3.prems"(2) show ?thesis by simp
  qed
next
  case (4 ic st s cs)
  from "4.prems" have "rx_match ic st s cs = Some (rest, cs')"
    by (simp add: rx_match.simps(4))
  from "4.IH" [OF this] "4.prems"(2) show ?case by simp
next
  case (5 ic st s cs)
  from "5.prems" have e: "s = []" and m: "rx_match ic st s cs = Some (rest, cs')"
    by (simp_all add: rx_match.simps(5) split: if_splits)
  from "5.IH" [OF e m] "5.prems"(2) show ?case by simp
next
  case (6 ic a b st s cs)
  from "6.prems" have "rx_match ic (Rx a # Rx b # st) s cs = Some (rest, cs')"
    by (simp add: rx_match.simps(6))
  from "6.IH" [OF this] "6.prems"(2) show ?case by auto
next
  case (7 ic a b st s cs)
  show ?case
  proof (cases "rx_match ic (Rx a # st) s cs")
    case None
    with "7.prems" have "rx_match ic (Rx b # st) s cs = Some (rest, cs')"
      by (simp add: rx_match.simps(7))
    from "7.IH"(2) [OF None this] "7.prems"(2) show ?thesis by auto
  next
    case (Some r)
    with "7.prems" have "rx_match ic (Rx a # st) s cs = Some (rest, cs')"
      by (simp add: rx_match.simps(7))
    from "7.IH"(1) [OF this] "7.prems"(2) show ?thesis by auto
  qed
next
  case (8 ic a st s cs)
  show ?case
  proof (cases "rx_match ic (Rx a # CheckStar a (length s) # st) s cs")
    case None
    with "8.prems" have "rx_match ic st s cs = Some (rest, cs')"
      by (simp add: rx_match.simps(8))
    from "8.IH"(2) [OF None this] "8.prems"(2) show ?thesis by auto
  next
    case (Some r)
    with "8.prems" have "rx_match ic (Rx a # CheckStar a (length s) # st) s cs = Some (rest, cs')"
      by (simp add: rx_match.simps(8))
    from "8.IH"(1) [OF this] "8.prems"(2) show ?thesis by auto
  qed
next
  case (9 ic a n' st s cs)
  from "9.prems" have l: "length s < n'" and m: "rx_match ic (Rx (Star a) # st) s cs = Some (rest, cs')"
    by (simp_all add: rx_match.simps(9) split: if_splits)
  from "9.IH" [OF l m] "9.prems"(2) show ?case by auto
next
  case (10 ic a st s cs)
  show ?case
  proof (cases "rx_match ic st s cs")
    case None
    with "10.prems" have "rx_match ic (Rx a # CheckLazy a (length s) # st) s cs = Some (rest, cs')"
      by (simp add: rx_match.simps(10))
    from "10.IH"(2) [OF None this] "10.prems"(2) show ?thesis by auto
  next
    case (Some r)
    with "10.prems" have "rx_match ic st s cs = Some (rest, cs')"
      by (simp add: rx_match.simps(10))
    from "10.IH"(1) [OF this] "10.prems"(2) show ?thesis by auto
  qed
next
  case (11 ic a n' st s cs)
  from "11.prems" have l: "length s < n'" and m: "rx_match ic (Rx (Lazy a) # st) s cs = Some (rest, cs')"
    by (simp_all add: rx_match.simps(11) split: if_splits)
  from "11.IH" [OF l m] "11.prems"(2) show ?case by auto
next
  case (12 ic m a st s cs)
  from "12.prems" have "rx_match ic (Rx a # Close m s # st) s cs = Some (rest, cs')"
    by (simp add: rx_match.simps(12))
  from "12.IH" [OF this] "12.prems"(2) show ?case by auto
next
  case (13 ic m start st s cs)
  from "13.prems" have
    "rx_match ic st s ((m, take (length start - length s) start) # cs) = Some (rest, cs')"
    by (simp add: rx_match.simps(13))
  from "13.IH" [OF this] "13.prems"(2) show ?case by auto
next
  case (14 ic a st s cs)
  from "14.prems" obtain r1 cs1 where
    l: "rx_match ic [Rx a] s cs = Some (r1, cs1)" and m: "rx_match ic st s cs1 = Some (rest, cs')"
    by (auto simp: rx_match.simps(14) split: option.splits)
  have "n \<in> fst ` set cs \<or> captures n a \<Longrightarrow> n \<in> fst ` set cs1"
    using "14.IH"(1) [OF l] by auto
  with "14.IH"(2) [OF l refl m] "14.prems"(2) show ?case by auto
qed

lemma rx_search_captures:
  "rx_search ic r s = Some m \<Longrightarrow> captures n r \<Longrightarrow> cap m n \<noteq> None"
proof (induction s)
  case Nil
  then show ?case
    using rx_match_captures [of ic "[Rx r]" "[]" "[]" _ _ n]
    by (auto simp: match_here_def cap_def map_of_eq_None_iff split: option.splits)
next
  case (Cons x xs)
  show ?case
  proof (cases "match_here ic r (x # xs)")
    case None
    with Cons show ?thesis by simp
  next
    case (Some a)
    with Cons.prems have "match_here ic r (x # xs) = Some m" by simp
    then show ?thesis
      using rx_match_captures [of ic "[Rx r]" "x # xs" "[]" _ _ n] Cons.prems(2)
      by (auto simp: match_here_def cap_def map_of_eq_None_iff split: option.splits)
  qed
qed

lemma first_match_captures:
  "first_match ic rs s = Some m \<Longrightarrow> \<forall>r \<in> set rs. captures n r \<Longrightarrow> cap m n \<noteq> None"
proof (induction rs)
  case Nil
  then show ?case by simp
next
  case (Cons r rs)
  then show ?case
    using rx_search_captures [of ic r s m n] by (auto split: option.splits)
qed

subsection \<open>The listing extraction returns\<close>

lemmas rx_shape =
  str_def seqs_def alts_def Plus_def Opt_def quote_def not_quote_def not_gt_def not_lt_def
  class_with_def attr_value_rx_def img_attr_rx_def href_path_rx_def

lemma mangaPatterns_consume: "\<forall>r \<in> set mangaPatterns. \<not> nullable r"
  by (simp add: mangaPatterns_def div_card_rx_def anchor_card_rx_def article_rx_def rx_shape)

lemma find_cards_total:
  "\<forall>r \<in> set patterns. \<not> nullable r \<Longrightarrow> \<exists>cards. find_cards patterns html = Some cards"
proof (induction patterns)
  case Nil
  then show ?case by simp
next
  case (Cons r rs)
  then obtain ms where "exec_loop r html = Some ms"
    using exec_loop_total [of r html] by auto
  with Cons show ?case by (cases ms) (auto simp: extractAll_def)
qed

lemma url_patterns_capture: "\<forall>r \<in> set url_patterns. captures 1 r"
  by (simp add: url_patterns_def href_series_id_rx_def rx_shape)

lemma title_patterns_capture: "\<forall>r \<in> set title_patterns. captures 1 r"
  by (simp add: title_patterns_def rx_shape)

lemma card_id_url_total: "card_id_url html \<noteq> None"
  using first_match_captures [OF _ url_patterns_capture, of True html]
  by (auto simp: card_id_url_def split: option.splits)

lemma card_title_of_total: "card_title_of html \<noteq> None"
  using first_match_captures [OF _ title_patterns_capture, of True html]
  by (auto simp: card_title_of_def split: option.splits)

lemma parseMangaCard_total: "parseMangaCard current html \<noteq> None"
  using card_id_url_total [of html] card_title_of_total [of html]
  by (auto simp: parseMangaCard_def Let_def split: option.splits)

lemma search_results_total: "\<exists>rs. search_results current html = Some rs \<and> length rs \<le> 20"
  using find_cards_total [OF mangaPatterns_consume, of html]
  by (auto simp: search_results_def)


subsection \<open>The listing scenario\<close>

lemmas block_defs = block_a_def block_b_def block_x_def block_c_def card_open_def attr_def

lemma search_block_a:
  "rx_search True div_card_rx (block_a @ block_b @ t) = Some (block_a, [], block_b @ t)"
  by (simp add: rx_eval div_card_rx_def block_defs)

lemma search_block_b:
  "rx_search True div_card_rx (block_b @ block_x @ t) = Some (block_b, [], block_x @ t)"
  by (simp add: rx_eval div_card_rx_def block_defs)

lemma search_block_x:
  "rx_search True div_card_rx (block_x @ block_c @ t) = Some (block_x, [], block_c @ t)"
  by (simp add: rx_eval div_card_rx_def block_defs)

lemma search_block_c:
  "rx_search True div_card_rx block_c = Some (block_c, [], [])"
  by (simp add: rx_eval div_card_rx_def block_defs)

lemma exec_loop_empty: "exec_loop div_card_rx [] = Some []"
  by (simp add: exec_loop.simps [of _ "[]"] rx_eval div_card_rx_def)

lemma blocks_nonempty: "block_a \<noteq> []" "block_b \<noteq> []" "block_x \<noteq> []" "block_c \<noteq> []"
  by (simp_all add: block_defs)

lemma fixture_cards:
  "find_cards mangaPatterns listing_fixture
     = Some [(block_a, []), (block_b, []), (block_x, []), (block_c, [])]"
proof -
  have c: "exec_loop div_card_rx block_c = Some [(block_c, [])]"
    using blocks_nonempty
    by (simp add: exec_loop.simps [of _ block_c] exec_loop_empty search_block_c)
  have x: "exec_loop div_card_rx (block_x @ block_c) = Some [(block_x, []), (block_c, [])]"
    using search_block_x [of "[]"] blocks_nonempty c
    by (simp add: exec_loop.simps [of _ "block_x @ block_c"])
  have b: "exec_loop div_card_rx (block_b @ block_x @ block_c)
             = Some [(block_b, []), (block_x, []), (block_c, [])]"
    using search_block_b [of block_c] blocks_nonempty x
    by (simp add: exec_loop.simps [of _ "block_b @ block_x @ block_c"])
  have a: "exec_loop div_card_rx (block_a @ block_b @ block_x @ block_c)
             = Some [(block_a, []), (block_b, []), (block_x, []), (block_c, [])]"
    using search_block_a [of "block_x @ block_c"] blocks_nonempty b
    by (simp add: exec_loop.simps [of _ "block_a @ block_b @ block_x @ block_c"])
  show ?thesis
    by (simp add: mangaPatterns_def extractAll_def listing_fixture_def a)
qed


lemmas parse_eval =
  parseMangaCard_def card_id_url_def card_title_of_def absolute_cover_def last_segment_def
  parseInt_def url_patterns_def title_patterns_def cover_patterns_def chapters_rx_def
  href_series_id_rx_def href_path_rx_def attr_value_rx_def img_attr_rx_def
  startsWith_def trim_def is_js_space_def Let_def

lemma parse_block_a:
  "parseMangaCard current block_a =
     Some \<lparr> card_id = Some ''101'', card_url = Some (current @ ''/series/101''),
            card_title = ''A'', card_coverUrl = Some (current @ ''/covers/a.jpg''),
            card_chapters = None \<rparr>"
  by (simp add: parse_eval rx_eval block_defs)

lemma parse_block_b:
  "parseMangaCard current block_b =
     Some \<lparr> card_id = Some ''102-beta'', card_url = Some (current @ ''/title/102-beta''),
            card_title = ''B'', card_coverUrl = Some ''https://cdn.example.org/thumb/b.jpg'',
            card_chapters = None \<rparr>"
  by (simp add: parse_eval rx_eval block_defs)

lemma parse_block_x:
  "parseMangaCard current block_x =
     Some \<lparr> card_id = None, card_url = None,
            card_title = ''X'', card_coverUrl = Some (current @ ''/covers/x.jpg''),
            card_chapters = None \<rparr>"
  by (simp add: parse_eval rx_eval block_defs)

lemma parse_block_c:
  "parseMangaCard current block_c =
     Some \<lparr> card_id = Some ''103'', card_url = Some (current @ ''/series/103''),
            card_title = ''C'', card_coverUrl = None, card_chapters = None \<rparr>"
  by (simp add: parse_eval rx_eval block_defs)

text \<open>
  What the expressions of \<open>parseMangaCard\<close> find in a candidate block, read off the
  block alone. The identifier is the group of the first of the three link expressions
  that matches; when that group is a path (it starts with a slash or contains
  \<open>/series/\<close> or \<open>/title/\<close>), the identifier is its last non-empty segment. The title
  is the trimmed group of the first title expression that matches, the cover the group of
  the first cover expression that matches. A resolvable identifier can be mined from a
  block when the identifier found is a non-empty text.
\<close>

definition mined_id :: "string \<Rightarrow> string option" where
  "mined_id block =
     (case first_match True url_patterns block of
        None \<Rightarrow> None
      | Some urlMatch \<Rightarrow>
          (case cap urlMatch 1 of
             None \<Rightarrow> None
           | Some g \<Rightarrow>
               if startsWith g ''/'' \<or> includes_js g ''/series/'' \<or> includes_js g ''/title/''
               then last_segment g
               else Some g))"

definition mined_title :: "string \<Rightarrow> string option" where
  "mined_title block =
     (case first_match True title_patterns block of
        None \<Rightarrow> None
      | Some titleMatch \<Rightarrow> map_option trim (cap titleMatch 1))"

definition mined_cover :: "string \<Rightarrow> string option" where
  "mined_cover block =
     (case first_match True cover_patterns block of
        None \<Rightarrow> None
      | Some coverMatch \<Rightarrow> cap coverMatch 1)"

definition identified :: "string \<Rightarrow> bool" where
  "identified block = (case mined_id block of None \<Rightarrow> False | Some i \<Rightarrow> i \<noteq> [])"

text \<open>The object that \<open>parseMangaCard\<close> returns carries what the expressions find: the
  parser never returns \<open>null\<close>, whatever is missing, and puts \<open>Unknown Title\<close> where no
  title is found.\<close>

lemma card_id_url_mined: "\<exists>url. card_id_url block = Some (mined_id block, url)"
proof (cases "first_match True url_patterns block")
  case None
  then show ?thesis by (simp add: card_id_url_def mined_id_def)
next
  case (Some urlMatch)
  from first_match_captures [OF Some url_patterns_capture]
  obtain g where "cap urlMatch 1 = Some g" by auto
  with Some show ?thesis by (simp add: card_id_url_def mined_id_def)
qed

lemma card_title_of_mined:
  "card_title_of block = Some (case mined_title block of Some title \<Rightarrow> title | None \<Rightarrow> ''Unknown Title'')"
proof (cases "first_match True title_patterns block")
  case None
  then show ?thesis by (simp add: card_title_of_def mined_title_def)
next
  case (Some titleMatch)
  from first_match_captures [OF Some title_patterns_capture]
  obtain g where "cap titleMatch 1 = Some g" by auto
  with Some show ?thesis by (simp add: card_title_of_def mined_title_def)
qed

lemma parseMangaCard_fields:
  "\<exists>manga. parseMangaCard current block = Some manga
     \<and> card_id manga = mined_id block
     \<and> card_title manga = (case mined_title block of Some title \<Rightarrow> title | None \<Rightarrow> ''Unknown Title'')
     \<and> card_coverUrl manga = map_option (absolute_cover current) (mined_cover block)"
proof -
  obtain url where "card_id_url block = Some (mined_id block, url)"
    using card_id_url_mined by blast
  then show ?thesis
    by (simp add: parseMangaCard_def card_title_of_mined mined_cover_def Let_def
          split: option.splits)
qed

lemma listing_of_identified:
  "listing_of (parseMangaCard current block) \<noteq> None \<longleftrightarrow> identified block"
proof -
  obtain manga where "parseMangaCard current block = Some manga" "card_id manga = mined_id block"
    using parseMangaCard_fields by blast
  then show ?thesis
    by (simp add: listing_of_def identified_def split: option.splits)
qed

lemma listing_of_fields:
  assumes "identified block"
  shows "\<exists>r. listing_of (parseMangaCard current block) = Some r
           \<and> Some (rec_id r) = mined_id block
           \<and> rec_title r = (case mined_title block of Some title \<Rightarrow> title | None \<Rightarrow> ''Unknown Title'')
           \<and> rec_coverUrl r = map_option (absolute_cover current) (mined_cover block)
           \<and> rec_description r = '''' \<and> rec_author r = None \<and> rec_status r = ''unknown''"
proof -
  obtain manga where m: "parseMangaCard current block = Some manga"
    "card_id manga = mined_id block"
    "card_title manga = (case mined_title block of Some title \<Rightarrow> title | None \<Rightarrow> ''Unknown Title'')"
    "card_coverUrl manga = map_option (absolute_cover current) (mined_cover block)"
    using parseMangaCard_fields by blast
  from assms obtain i where "mined_id block = Some i" "i \<noteq> []"
    by (auto simp: identified_def split: option.splits)
  with m show ?thesis by (simp add: listing_of_def)
qed

lemma search_results_filter:
  assumes "find_cards mangaPatterns html = Some cards"
  shows "search_results current html =
           Some (take 20 (map (\<lambda>c. the (listing_of (parseMangaCard current (fst c))))
                           (filter (\<lambda>c. identified (fst c)) cards)))"
  unfolding search_results_def List.map_filter_def comp_def listing_of_identified
  using assms by simp

definition record_a :: "string \<Rightarrow> ListingRecord" where
  "record_a current =
     \<lparr> rec_id = ''101'', rec_title = ''A'', rec_coverUrl = Some (current @ ''/covers/a.jpg''),
       rec_description = '''', rec_author = None, rec_status = ''unknown'' \<rparr>"

definition record_b :: ListingRecord where
  "record_b =
     \<lparr> rec_id = ''102-beta'', rec_title = ''B'',
       rec_coverUrl = Some ''https://cdn.example.org/thumb/b.jpg'',
       rec_description = '''', rec_author = None, rec_status = ''unknown'' \<rparr>"

definition record_c :: ListingRecord where
  "record_c =
     \<lparr> rec_id = ''103'', rec_title = ''C'', rec_coverUrl = None,
       rec_description = '''', rec_author = None, rec_status = ''unknown'' \<rparr>"

lemma fixture_results:
  "search_results current listing_fixture = Some [record_a current, record_b, record_c]"
  by (simp add: search_results_def fixture_cards List.map_filter_simps listing_of_def
        parse_block_a parse_block_b parse_block_x parse_block_c
        record_a_def record_b_def record_c_def)

text \<open>A block with a link and nothing else: no title, no cover.\<close>

definition block_d :: string where
  "block_d = card_open @ ''<a '' @ attr ''href'' ''/series/104'' @ ''>D</a></div>''"

definition record_d :: ListingRecord where
  "record_d =
     \<lparr> rec_id = ''104'', rec_title = ''Unknown Title'', rec_coverUrl = None,
       rec_description = '''', rec_author = None, rec_status = ''unknown'' \<rparr>"

lemma search_block_d:
  "rx_search True div_card_rx block_d = Some (block_d, [], [])"
  by (simp add: rx_eval div_card_rx_def block_d_def card_open_def attr_def)

lemma parse_block_d:
  "parseMangaCard current block_d =
     Some \<lparr> card_id = Some ''104'', card_url = Some (current @ ''/series/104''),
            card_title = ''Unknown Title'', card_coverUrl = None, card_chapters = None \<rparr>"
  by (simp add: parse_eval rx_eval block_d_def card_open_def attr_def)

lemma block_d_results: "search_results current block_d = Some [record_d]"
proof -
  have "block_d \<noteq> []" by (simp add: block_d_def card_open_def)
  then have "exec_loop div_card_rx block_d = Some [(block_d, [])]"
    by (simp add: exec_loop.simps [of _ block_d] exec_loop_empty search_block_d)
  then have "find_cards mangaPatterns block_d = Some [(block_d, [])]"
    by (simp add: mangaPatterns_def extractAll_def)
  then show ?thesis
    by (simp add: search_results_def List.map_filter_simps listing_of_def parse_block_d
          record_d_def)
qed

lemma block_d_mined:
  "mined_id block_d = Some ''104''" "mined_title block_d = None" "mined_cover block_d = None"
  by (simp_all add: mined_id_def mined_title_def mined_cover_def parse_eval rx_eval
        block_d_def card_open_def attr_def)

lemma block_x_mined: "mined_id block_x = None"
  by (simp add: mined_id_def parse_eval rx_eval block_defs)

lemma search_block_a_again:
  "rx_search True div_card_rx (block_a @ block_a @ t) = Some (block_a, [], block_a @ t)"
  by (simp add: rx_eval div_card_rx_def block_defs)

lemma search_block_a_last:
  "rx_search True div_card_rx block_a = Some (block_a, [], [])"
  by (simp add: rx_eval div_card_rx_def block_defs)

lemma exec_loop_replicate:
  "exec_loop div_card_rx (concat (replicate (Suc n) block_a)) = Some (replicate (Suc n) (block_a, []))"
proof (induction n)
  case 0
  show ?case
    using blocks_nonempty
    by (simp add: exec_loop.simps [of _ block_a] exec_loop_empty search_block_a_last)
next
  case (Suc n)
  let ?t = "concat (replicate n block_a)"
  have "exec_loop div_card_rx (block_a @ block_a @ ?t)
          = map_option ((#) (block_a, [])) (exec_loop div_card_rx (block_a @ ?t))"
    using blocks_nonempty search_block_a_again [of ?t]
    by (simp add: exec_loop.simps [of _ "block_a @ block_a @ ?t"])
  then show ?case using Suc by simp
qed

lemma identified_block_a: "identified block_a"
proof -
  have "listing_of (parseMangaCard [] block_a) \<noteq> None"
    by (simp add: listing_of_def parse_block_a)
  then show ?thesis by (simp only: listing_of_identified)
qed

lemma replicate_cards:
  "find_cards mangaPatterns (concat (replicate (Suc n) block_a))
     = Some (replicate (Suc n) (block_a, []))"
  using exec_loop_replicate [of n] by (simp add: mangaPatterns_def extractAll_def)

text \<open>
  C7, as the claim states it, fails in its "only if": \<open>results.slice(0, 20)\<close> drops
  every record after the twentieth. Markup of 21 copies of block A has 21 candidate
  blocks, each with an identifier, and extracts to 20 records.
\<close>

theorem C7_twenty_first_block_dropped:
  "find_cards mangaPatterns (concat (replicate 21 block_a)) = Some (replicate 21 (block_a, []))
   \<and> identified block_a
   \<and> search_results ''https://bato.to'' (concat (replicate 21 block_a))
       = Some (replicate 20 (record_a ''https://bato.to''))"
proof -
  have c: "find_cards mangaPatterns (concat (replicate 21 block_a))
             = Some (replicate 21 (block_a, []))"
    using replicate_cards [of 20] by simp
  have "search_results ''https://bato.to'' (concat (replicate 21 block_a))
          = Some (take 20 (replicate 21 (record_a ''https://bato.to'')))"
    by (simp only: search_results_filter [OF c])
       (simp add: identified_block_a listing_of_def parse_block_a record_a_def)
  then show ?thesis using c identified_block_a by simp
qed

text \<open>
  C7, amended: for every input markup the listing extraction returns, and its records
  are the first 20 of those that the candidate blocks with a resolvable identifier
  yield, in order. A candidate block yields a record if and only if the identifier that
  its link yields is a non-empty text, so with at most 20 such blocks a block is
  discarded exactly when it has none; nothing else discards a block. The record carries
  that identifier, the title found or else \<open>Unknown Title\<close>, the cover found (made
  absolute) or else none, an empty description, no author and the status \<open>unknown\<close>.
  The markup of blocks A, B, X and C, where X has no identifier and C no cover, extracts
  to exactly the three records of A, B and C; block D, which has an identifier but
  neither title nor cover, extracts to one record with the title \<open>Unknown Title\<close>.
\<close>

theorem C7_listing_extraction:
  "(\<exists>cards. find_cards mangaPatterns html = Some cards
       \<and> search_results current html =
           Some (take 20 (map (\<lambda>c. the (listing_of (parseMangaCard current (fst c))))
                           (filter (\<lambda>c. identified (fst c)) cards)))
       \<and> (length (filter (\<lambda>c. identified (fst c)) cards) \<le> 20 \<longrightarrow>
            map_option length (search_results current html)
              = Some (length (filter (\<lambda>c. identified (fst c)) cards))))
   \<and> (listing_of (parseMangaCard current block) \<noteq> None \<longleftrightarrow> identified block)
   \<and> (identified block \<longrightarrow>
        (\<exists>r. listing_of (parseMangaCard current block) = Some r
           \<and> Some (rec_id r) = mined_id block
           \<and> rec_title r = (case mined_title block of Some title \<Rightarrow> title | None \<Rightarrow> ''Unknown Title'')
           \<and> rec_coverUrl r = map_option (absolute_cover current) (mined_cover block)
           \<and> rec_description r = '''' \<and> rec_author r = None \<and> rec_status r = ''unknown''))
   \<and> search_results current listing_fixture = Some [record_a current, record_b, record_c]
   \<and> \<not> identified block_x
   \<and> identified block_d \<and> mined_title block_d = None \<and> mined_cover block_d = None
   \<and> search_results current block_d = Some [record_d]"
proof (intro conjI)
  obtain cards where c: "find_cards mangaPatterns html = Some cards"
    using find_cards_total [OF mangaPatterns_consume, of html] by blast
  note r = search_results_filter [OF c, of current]
  show "\<exists>cards. find_cards mangaPatterns html = Some cards
       \<and> search_results current html =
           Some (take 20 (map (\<lambda>c. the (listing_of (parseMangaCard current (fst c))))
                           (filter (\<lambda>c. identified (fst c)) cards)))
       \<and> (length (filter (\<lambda>c. identified (fst c)) cards) \<le> 20 \<longrightarrow>
            map_option length (search_results current html)
              = Some (length (filter (\<lambda>c. identified (fst c)) cards)))"
    using c r by (intro exI [of _ cards]) simp
  show "listing_of (parseMangaCard current block) \<noteq> None \<longleftrightarrow> identified block"
    by (rule listing_of_identified)
  show "identified block \<longrightarrow>
        (\<exists>r. listing_of (parseMangaCard current block) = Some r
           \<and> Some (rec_id r) = mined_id block
           \<and> rec_title r = (case mined_title block of Some title \<Rightarrow> title | None \<Rightarrow> ''Unknown Title'')
           \<and> rec_coverUrl r = map_option (absolute_cover current) (mined_cover block)
           \<and> rec_description r = '''' \<and> rec_author r = None \<and> rec_status r = ''unknown'')"
    using listing_of_fields by blast
  show "search_results current listing_fixture = Some [record_a current, record_b, record_c]"
    by (rule fixture_results)
  show "\<not> identified block_x"
    by (simp add: identified_def block_x_mined)
  show "identified block_d"
    by (simp add: identified_def block_d_mined)
  show "mined_title block_d = None" by (rule block_d_mined)
  show "mined_cover block_d = None" by (rule block_d_mined)
  show "search_results current block_d = Some [record_d]"
    by (rule block_d_results)
qed

text \<open>The theorem at the scenario, at block C (a title, no cover) and at block D
  (neither).\<close>

theorem C7_listing_extraction_witness:
  "search_results ''https://bato.to'' listing_fixture
     = Some [record_a ''https://bato.to'', record_b, record_c]
   \<and> map_option length (search_results ''https://bato.to'' listing_fixture) = Some 3
   \<and> identified block_c
   \<and> (\<exists>r. listing_of (parseMangaCard ''https://bato.to'' block_c) = Some r
         \<and> rec_id r = ''103'' \<and> rec_title r = ''C'' \<and> rec_coverUrl r = None)
   \<and> identified block_d
   \<and> (\<exists>r. listing_of (parseMangaCard ''https://bato.to'' block_d) = Some r
         \<and> rec_id r = ''104'' \<and> rec_title r = ''Unknown Title'' \<and> rec_coverUrl r = None
         \<and> rec_description r = '''' \<and> rec_author r = None \<and> rec_status r = ''unknown'')"
proof -
  note at_c = C7_listing_extraction [of listing_fixture "''https://bato.to''" block_c]
  note at_d = C7_listing_extraction [of listing_fixture "''https://bato.to''" block_d]
  have mined_c: "mined_id block_c = Some ''103''" "mined_title block_c = Some ''C''"
    "mined_cover block_c = None"
    by (simp_all add: mined_id_def mined_title_def mined_cover_def parse_eval rx_eval block_defs)
  then have ic: "identified block_c" by (simp add: identified_def)
  from at_c ic obtain r where
    "listing_of (parseMangaCard ''https://bato.to'' block_c) = Some r"
    "Some (rec_id r) = mined_id block_c"
    "rec_title r = (case mined_title block_c of Some title \<Rightarrow> title | None \<Rightarrow> ''Unknown Title'')"
    "rec_coverUrl r = map_option (absolute_cover ''https://bato.to'') (mined_cover block_c)"
    by blast
  with mined_c have c: "\<exists>r. listing_of (parseMangaCard ''https://bato.to'' block_c) = Some r
         \<and> rec_id r = ''103'' \<and> rec_title r = ''C'' \<and> rec_coverUrl r = None"
    by simp
  from at_d have id: "identified block_d" and md: "mined_title block_d = None"
    "mined_cover block_d = None"
    by blast+
  from at_d id obtain r where
    "listing_of (parseMangaCard ''https://bato.to'' block_d) = Some r"
    "Some (rec_id r) = mined_id block_d"
    "rec_title r = (case mined_title block_d of Some title \<Rightarrow> title | None \<Rightarrow> ''Unknown Title'')"
    "rec_coverUrl r = map_option (absolute_cover ''https://bato.to'') (mined_cover block_d)"
    "rec_description r = ''''" "rec_author r = None" "rec_status r = ''unknown''"
    by blast
  with md block_d_mined(1) have d:
    "\<exists>r. listing_of (parseMangaCard ''https://bato.to'' block_d) = Some r
         \<and> rec_id r = ''104'' \<and> rec_title r = ''Unknown Title'' \<and> rec_coverUrl r = None
         \<and> rec_description r = '''' \<and> rec_author r = None \<and> rec_status r = ''unknown''"
    by simp
  from at_c have f: "search_results ''https://bato.to'' listing_fixture
     = Some [record_a ''https://bato.to'', record_b, record_c]"
    by blast
  then have "map_option length (search_results ''https://bato.to'' listing_fixture) = Some 3"
    by simp
  with f ic c id d show ?thesis by (intro conjI)
qed

section \<open>Page extraction (getBatoChapterPages)\<close>

lemma rx_search_rest:
  "rx_search ic r s = Some (m, cs, rest) \<Longrightarrow>
     length rest \<le> length s \<and> (m \<noteq> [] \<longrightarrow> length rest < length s)"
proof (induction s)
  case Nil
  then show ?case
    using rx_match_progress [of ic "[Rx r]" "[]" "[]"]
    by (auto simp: match_here_def split: option.splits)
next
  case (Cons x xs)
  show ?case
  proof (cases "match_here ic r (x # xs)")
    case None
    with Cons show ?thesis by auto
  next
    case (Some a)
    with Cons.prems have "match_here ic r (x # xs) = Some (m, cs, rest)" by simp
    then show ?thesis
      using rx_match_progress [of ic "[Rx r]" "x # xs" "[]"]
      by (auto simp: match_here_def split: option.splits)
  qed
qed

text \<open>
  \<open>String.prototype.replace\<close> with a global expression and a replacement text without
  \<open>$\<close>: every match, from left to right, is replaced; after an empty match the
  search resumes one character later, that character being kept.
\<close>

function replace_all :: "rx \<Rightarrow> string \<Rightarrow> string \<Rightarrow> string" where
  "replace_all r rep s =
     (case rx_search False r s of
        None \<Rightarrow> s
      | Some (m, cs, rest) \<Rightarrow>
          take (length s - length m - length rest) s @ rep @
            (if m = [] then (case rest of [] \<Rightarrow> [] | c # rest' \<Rightarrow> c # replace_all r rep rest')
             else replace_all r rep rest))"
  by pat_completeness auto
termination
proof (relation "measure (\<lambda>(r, rep, s). length s)")
  show "wf (measure (\<lambda>(r, rep, s). length s))" by simp
next
  fix r rep s found m tl cs rest c rest'
  assume "rx_search False r s = Some found" "(m, tl) = found" "(cs, rest) = tl" "m = []"
    "rest = c # rest'"
  then have "rx_search False r s = Some (m, cs, c # rest')" by simp
  from rx_search_rest [OF this]
  show "((r, rep, rest'), r, rep, s) \<in> measure (\<lambda>(r, rep, s). length s)" by simp
next
  fix r rep s found m tl cs rest
  assume "rx_search False r s = Some found" "(m, tl) = found" "(cs, rest) = tl" "m \<noteq> []"
  then have s: "rx_search False r s = Some (m, cs, rest)" by simp
  from rx_search_rest [OF s] \<open>m \<noteq> []\<close>
  show "((r, rep, rest), r, rep, s) \<in> measure (\<lambda>(r, rep, s). length s)" by simp
qed

declare replace_all.simps [simp del]


subsection \<open>The expressions of the page extraction\<close>

text \<open>A JavaScript array literal \<^verbatim>\<open>(\[[\s\S]*?\])\<close> as group 1.\<close>

definition array_group :: rx where
  "array_group = Group 1 (seqs [str ''['', Lazy (Cls AnyChar), str '']''])"

definition spaces :: rx where "spaces = Star (Cls Space)"

text \<open>The five \<open>jsPatterns\<close>:
  \<^verbatim>\<open>const\s+images\s*=\s*(\[[\s\S]*?\]);\<close>,
  \<^verbatim>\<open>var\s+images\s*=\s*(\[[\s\S]*?\]);\<close>,
  \<^verbatim>\<open>images:\s*(\[[\s\S]*?\])\<close>,
  \<^verbatim>\<open>pageList\s*=\s*(\[[\s\S]*?\])\<close>,
  \<^verbatim>\<open>"images":\s*(\[[\s\S]*?\])\<close>.\<close>

definition jsPatterns :: "rx list" where
  "jsPatterns =
     [seqs [str ''const'', Plus (Cls Space), str ''images'', spaces, str ''='', spaces,
            array_group, str '';''],
      seqs [str ''var'', Plus (Cls Space), str ''images'', spaces, str ''='', spaces,
            array_group, str '';''],
      seqs [str ''images:'', spaces, array_group],
      seqs [str ''pageList'', spaces, str ''='', spaces, array_group],
      seqs [str ([dq] @ ''images'' @ [dq] @ '':''), spaces, array_group]]"

text \<open>The clean-up \<^verbatim>\<open>.replace(/,\s*\]/g, ']').replace(/,\s*}/g, '}')\<close>.\<close>

definition clean_json :: "string \<Rightarrow> string" where
  "clean_json imagesJson =
     replace_all (seqs [str '','', spaces, str ''}'']) ''}''
       (replace_all (seqs [str '','', spaces, str '']'']) '']'' imagesJson)"

text \<open>The three \<open>imgPatterns\<close>:
  \<^verbatim>\<open><img[^>]*class=["'][^"']*page[^"']*["'][^>]*src=["']([^"']+)["']\<close>,
  \<^verbatim>\<open><img[^>]*id=["'][^"']*image[^"']*["'][^>]*src=["']([^"']+)["']\<close>,
  \<^verbatim>\<open><img[^>]*data-src=["']([^"']+)["'][^>]*class=["'][^"']*page\<close>;
  the last resort \<^verbatim>\<open><img[^>]*src=["']([^"']+)["']\<close>; and the test
  \<^verbatim>\<open>\d+\.(jpg|jpeg|png|webp)\<close> of a page image URL.\<close>

definition imgPatterns :: "rx list" where
  "imgPatterns =
     [seqs [str ''<img'', Star not_gt, str ''class='', quote, Star not_quote, str ''page'',
            Star not_quote, quote, Star not_gt, attr_value_rx ''src''],
      seqs [str ''<img'', Star not_gt, str ''id='', quote, Star not_quote, str ''image'',
            Star not_quote, quote, Star not_gt, attr_value_rx ''src''],
      seqs [str ''<img'', Star not_gt, attr_value_rx ''data-src'', Star not_gt,
            str ''class='', quote, Star not_quote, str ''page'']]"

definition any_img_rx :: rx where
  "any_img_rx = img_attr_rx ''src''"

definition numbered_image_rx :: rx where
  "numbered_image_rx =
     seqs [Plus (Cls Digit), str ''.'',
           Group 1 (alts [str ''jpg'', str ''jpeg'', str ''png'', str ''webp''])]"

subsection \<open>getBatoChapterPages\<close>

record PageRecord =
  page_url :: string
  page :: nat

text \<open>\<open>urls.map((url, index) => ({url: url.startsWith('http') ? url : CURRENT + url,
  page: index + 1}))\<close>\<close>

definition pages_of :: "string \<Rightarrow> string list \<Rightarrow> PageRecord list" where
  "pages_of current urls =
     map (\<lambda>(url, index).
            \<lparr> page_url = (if startsWith url ''http'' then url else current @ url),
              page = index + 1 \<rparr>)
         (zip urls [0..<length urls])"

text \<open>The URL of one item of the parsed array:
  \<open>typeof item === 'string' ? item : (item.url || item.src || item)\<close>, on which
  \<open>startsWith\<close> is then called: a \<open>TypeError\<close> unless it is a string.\<close>

definition item_url :: "jsval \<Rightarrow> error + string" where
  "item_url item =
     (case item of
        JStr s \<Rightarrow> Inr s
      | _ \<Rightarrow>
         (case get_prop item ''url'' of
            Inl e \<Rightarrow> Inl e
          | Inr u \<Rightarrow>
             (case get_prop item ''src'' of
                Inl e \<Rightarrow> Inl e
              | Inr src \<Rightarrow>
                 (case js_or (js_or u src) item of
                    JStr s \<Rightarrow> Inr s
                  | _ \<Rightarrow> Inl TypeError))))"

fun item_urls :: "jsval list \<Rightarrow> error + string list" where
  "item_urls [] = Inr []"
| "item_urls (item # items) =
     (case item_url item of
        Inl e \<Rightarrow> Inl e
      | Inr u \<Rightarrow> (case item_urls items of Inl e \<Rightarrow> Inl e | Inr us \<Rightarrow> Inr (u # us)))"

text \<open>
  Method 1 for one pattern; \<open>parse\<close> is the platform's \<open>JSON.parse\<close> (\<open>None\<close> when it
  throws). \<open>Some pages\<close> is the \<open>return\<close> inside the inner \<open>try\<close>; \<open>None\<close> means
  that the loop goes on with the next pattern: no match, an exception caught by the
  inner \<open>catch\<close>, or a parsed value that is not a non-empty array.
\<close>

definition js_images ::
  "(string \<Rightarrow> jsval option) \<Rightarrow> string \<Rightarrow> string \<Rightarrow> rx \<Rightarrow> PageRecord list option" where
  "js_images parse current html pattern =
     (case rx_search True pattern html of
        None \<Rightarrow> None
      | Some dataMatch \<Rightarrow>
         (case cap dataMatch 1 of
            None \<Rightarrow> None
          | Some imagesJson \<Rightarrow>
             (case parse (clean_json imagesJson) of
                Some (JArr images) \<Rightarrow>
                  if images \<noteq> [] then
                    (case item_urls images of
                       Inl e \<Rightarrow> None
                     | Inr urls \<Rightarrow> Some (pages_of current urls))
                  else None
              | _ \<Rightarrow> None)))"

fun first_js_images ::
  "(string \<Rightarrow> jsval option) \<Rightarrow> string \<Rightarrow> string \<Rightarrow> rx list \<Rightarrow> PageRecord list option" where
  "first_js_images parse current html [] = None"
| "first_js_images parse current html (pattern # patterns) =
     (case js_images parse current html pattern of
        Some pages \<Rightarrow> Some pages
      | None \<Rightarrow> first_js_images parse current html patterns)"

text \<open>\<open>match[1]\<close> of every match; an undefined group makes the method call on it
  throw.\<close>

fun group1_all :: "(string \<times> caps) list \<Rightarrow> error + string list" where
  "group1_all [] = Inr []"
| "group1_all (m # ms) =
     (case map_of (snd m) 1 of
        None \<Rightarrow> Inl TypeError
      | Some u \<Rightarrow> (case group1_all ms of Inl e \<Rightarrow> Inl e | Inr us \<Rightarrow> Inr (u # us)))"

text \<open>The result of the function from here on, in three layers: \<open>None\<close> when an
  \<open>extractAll\<close> loop does not end, otherwise \<open>Inl\<close> for an exception on its way to the
  outer \<open>catch\<close>, or \<open>Inr\<close> for the returned list.\<close>

fun img_pages :: "string \<Rightarrow> string \<Rightarrow> rx list \<Rightarrow> (error + PageRecord list option) option" where
  "img_pages current html [] = Some (Inr None)"
| "img_pages current html (pattern # patterns) =
     (case extractAll html pattern of
        None \<Rightarrow> None
      | Some [] \<Rightarrow> img_pages current html patterns
      | Some imgMatches \<Rightarrow>
          (case group1_all imgMatches of
             Inl e \<Rightarrow> Some (Inl e)
           | Inr urls \<Rightarrow> Some (Inr (Some (pages_of current urls)))))"

definition looks_like_page :: "string \<Rightarrow> bool" where
  "looks_like_page url =
     (includes_js url ''/pages/'' \<or> includes_js url ''/images/''
      \<or> rx_search True numbered_image_rx url \<noteq> None)"

definition last_resort_pages :: "string \<Rightarrow> string \<Rightarrow> (error + PageRecord list) option" where
  "last_resort_pages current html =
     (case extractAll html any_img_rx of
        None \<Rightarrow> None
      | Some allImgMatches \<Rightarrow>
         (case group1_all allImgMatches of
            Inl e \<Rightarrow> Some (Inl e)
          | Inr urls \<Rightarrow> Some (Inr (pages_of current (filter looks_like_page urls)))))"

text \<open>The markup part of \<open>getBatoChapterPages\<close>: method 1, method 2, method 3, and the
  outer \<open>catch\<close> that answers every exception with the empty list. \<open>None\<close>: the
  function does not return.\<close>

definition chapter_pages ::
  "(string \<Rightarrow> jsval option) \<Rightarrow> string \<Rightarrow> string \<Rightarrow> PageRecord list option" where
  "chapter_pages parse current html =
     (case first_js_images parse current html jsPatterns of
        Some pages \<Rightarrow> Some pages
      | None \<Rightarrow>
         (case img_pages current html imgPatterns of
            None \<Rightarrow> None
          | Some (Inl e) \<Rightarrow> Some []
          | Some (Inr (Some pages)) \<Rightarrow> Some pages
          | Some (Inr None) \<Rightarrow>
             (case last_resort_pages current html of
                None \<Rightarrow> None
              | Some (Inl e) \<Rightarrow> Some []
              | Some (Inr pages) \<Rightarrow> Some pages)))"

text \<open>The loop over the two paths: the markup of the last path that answered, the
  loop ending at the first markup longer than 1000 characters.\<close>

fun fetch_markup :: "string list \<Rightarrow> string \<Rightarrow> BatoModule \<Rightarrow> string \<times> BatoModule" where
  "fetch_markup [] html st = (html, st)"
| "fetch_markup (path # paths) html st =
     (case tryBatoDomains path st of
        (Inr response, st') \<Rightarrow>
          if length (body response) > 1000 then (body response, st')
          else fetch_markup paths (body response) st'
      | (Inl e, st') \<Rightarrow> fetch_markup paths html st')"

definition getBatoChapterPages ::
  "(string \<Rightarrow> jsval option) \<Rightarrow> string \<Rightarrow> BatoModule \<Rightarrow> PageRecord list option \<times> BatoModule" where
  "getBatoChapterPages parse chapterId st =
     (case fetch_markup [''/chapter/'' @ chapterId, ''/read/'' @ chapterId] [] st of
        (html, st') \<Rightarrow> (chapter_pages parse (CURRENT_BATO_URL st') html, st'))"


subsection \<open>The extraction functions return\<close>

lemma extractAll_total: "\<not> nullable pattern \<Longrightarrow> \<exists>ms. extractAll html pattern = Some ms"
  by (simp add: extractAll_def exec_loop_total)

lemma page_patterns_consume:
  "\<forall>r \<in> set imgPatterns. \<not> nullable r" "\<not> nullable any_img_rx"
  by (simp_all add: imgPatterns_def any_img_rx_def rx_shape)

lemma img_pages_total:
  "\<forall>r \<in> set patterns. \<not> nullable r \<Longrightarrow> \<exists>res. img_pages current html patterns = Some res"
proof (induction patterns)
  case Nil
  then show ?case by simp
next
  case (Cons r rs)
  then obtain ms where "extractAll html r = Some ms"
    using extractAll_total [of r html] by auto
  with Cons show ?case by (cases ms) (auto split: sum.splits)
qed

lemma last_resort_pages_total: "\<exists>res. last_resort_pages current html = Some res"
  using extractAll_total [OF page_patterns_consume(2), of html]
  by (auto simp: last_resort_pages_def split: sum.splits)

lemma chapter_pages_total: "\<exists>pages. chapter_pages parse current html = Some pages"
proof (cases "first_js_images parse current html jsPatterns")
  case (Some pages)
  then show ?thesis by (simp add: chapter_pages_def)
next
  case None
  obtain res where i: "img_pages current html imgPatterns = Some res"
    using img_pages_total [OF page_patterns_consume(1)] by blast
  obtain res' where l: "last_resort_pages current html = Some res'"
    using last_resort_pages_total by blast
  show ?thesis
    using None i l by (auto simp: chapter_pages_def split: sum.splits option.splits)
qed

lemma getBatoChapterPages_total:
  "\<exists>pages st'. getBatoChapterPages parse chapterId st = (Some pages, st')"
proof -
  obtain html st' where f:
    "fetch_markup [''/chapter/'' @ chapterId, ''/read/'' @ chapterId] [] st = (html, st')"
    by (cases "fetch_markup [''/chapter/'' @ chapterId, ''/read/'' @ chapterId] [] st")
  obtain pages where "chapter_pages parse (CURRENT_BATO_URL st') html = Some pages"
    using chapter_pages_total by blast
  with f show ?thesis by (simp add: getBatoChapterPages_def)
qed

lemma searchBatoManga_total: "\<exists>records st'. searchBatoManga query st = (Some records, st')"
proof -
  obtain res st' where t:
    "tryBatoDomains (''/search?word='' @ encodeURIComponent query) st = (res, st')"
    by (cases "tryBatoDomains (''/search?word='' @ encodeURIComponent query) st")
  show ?thesis
  proof (cases res)
    case (Inl e)
    with t show ?thesis by (simp add: searchBatoManga_def)
  next
    case (Inr response)
    obtain rs where "search_results (CURRENT_BATO_URL st') (body response) = Some rs"
      using search_results_total by blast
    with t Inr show ?thesis by (simp add: searchBatoManga_def)
  qed
qed

lemma search_results_empty: "search_results current [] = Some []"
  by (simp add: search_results_def mangaPatterns_def extractAll_def exec_loop.simps [of _ "[]"]
        rx_eval div_card_rx_def anchor_card_rx_def article_rx_def List.map_filter_simps)

lemma chapter_pages_empty: "chapter_pages parse current [] = Some []"
  by (simp add: chapter_pages_def jsPatterns_def js_images_def imgPatterns_def
        last_resort_pages_def any_img_rx_def extractAll_def exec_loop.simps [of _ "[]"]
        rx_eval array_group_def spaces_def attr_value_rx_def img_attr_rx_def pages_of_def)

text \<open>Two runs of the page extraction on concrete markup: image tags of class
  \<open>page\<close>, and a script with an array literal that ends in a comma.\<close>

definition page_markup :: string where
  "page_markup =
     ''<img '' @ attr ''class'' ''page'' @ '' '' @ attr ''src'' ''/p/1.jpg'' @ ''>''
     @ ''<img '' @ attr ''class'' ''page'' @ '' '' @ attr ''src'' ''https://cdn.example.org/2.jpg'' @ ''>''"

lemma page_markup_pages:
  "chapter_pages (\<lambda>s. None) current page_markup =
     Some [\<lparr> page_url = current @ ''/p/1.jpg'', page = 1 \<rparr>,
           \<lparr> page_url = ''https://cdn.example.org/2.jpg'', page = 2 \<rparr>]"
  by (simp add: chapter_pages_def jsPatterns_def js_images_def imgPatterns_def
        extractAll_def exec_loop.simps [of _ "c # cs" for c cs] exec_loop.simps [of _ "[]"]
        rx_eval array_group_def spaces_def attr_value_rx_def pages_of_def startsWith_def
        page_markup_def attr_def upt_rec)

definition script_markup :: string where
  "script_markup = ''<script>const images = ['' @ [dq] @ ''/a.jpg'' @ [dq] @ '', ];</script>''"

definition parse_one :: "string \<Rightarrow> jsval option" where
  "parse_one s = (if s = ''['' @ [dq] @ ''/a.jpg'' @ [dq] @ '']'' then Some (JArr [JStr ''/a.jpg''])
                  else None)"

lemma script_markup_pages:
  "chapter_pages parse_one current script_markup =
     Some [\<lparr> page_url = current @ ''/a.jpg'', page = 1 \<rparr>]"
  by (simp add: chapter_pages_def jsPatterns_def js_images_def clean_json_def
        replace_all.simps [of _ _ "c # cs" for c cs] replace_all.simps [of _ _ "[]"]
        rx_eval array_group_def spaces_def pages_of_def startsWith_def is_js_space_def
        script_markup_def parse_one_def item_url_def upt_rec)

subsection \<open>The other callers of extractAll\<close>

text \<open>
  \<open>getBatoPopularManga\<close> answers empty markup with the empty list and otherwise
  extracts as \<open>searchBatoManga\<close> does, with the same three patterns;
  \<open>getBatoLatestUpdates\<close> does so with the first two patterns only.
\<close>

definition popular_results :: "string \<Rightarrow> string \<Rightarrow> ListingRecord list option" where
  "popular_results current html = (if html = [] then Some [] else search_results current html)"

definition latest_results :: "string \<Rightarrow> string \<Rightarrow> ListingRecord list option" where
  "latest_results current html =
     (case find_cards [div_card_rx, anchor_card_rx] html of
        None \<Rightarrow> None
      | Some mangaCards \<Rightarrow>
          Some (take 20 (List.map_filter (\<lambda>cardMatch. listing_of (parseMangaCard current (fst cardMatch)))
                          mangaCards)))"

definition getBatoPopularManga :: "BatoModule \<Rightarrow> ListingRecord list option \<times> BatoModule" where
  "getBatoPopularManga st =
     (case fetch_markup [''/browse'', ''/browse?sort=views'', ''/browse?sort=popular'',
                         ''/popular'', ''/''] [] st of
        (html, st') \<Rightarrow> (popular_results (CURRENT_BATO_URL st') html, st'))"

definition getBatoLatestUpdates :: "BatoModule \<Rightarrow> ListingRecord list option \<times> BatoModule" where
  "getBatoLatestUpdates st =
     (case fetch_markup [''/browse?sort=update'', ''/latest'', ''/recent''] [] st of
        (html, st') \<Rightarrow> (latest_results (CURRENT_BATO_URL st') html, st'))"

text \<open>The expressions that \<open>getBatoMangaDetails\<close> and \<open>getBatoChapters\<close> give to
  \<open>extractAll\<close>:
  \<^verbatim>\<open>class=["'][^"']*(?:genre|tag)[^"']*["'][^>]*>([^<]+)<\<close>,
  \<^verbatim>\<open><div[^>]*class=["'][^"']*(?:episode|chapter)[^"']*["'][^>]*>[\s\S]*?(?=<div[^>]*class=["'][^"']*(?:episode|chapter)|$)\<close>,
  \<^verbatim>\<open><a[^>]*class=["'][^"']*chapter[^"']*["'][^>]*>[\s\S]*?<\/a>\<close>,
  \<^verbatim>\<open><li[^>]*class=["'][^"']*chapter[^"']*["'][^>]*>[\s\S]*?<\/li>\<close>.\<close>

definition genresPattern :: rx where
  "genresPattern =
     seqs [class_with [''genre'', ''tag''], Star not_quote, quote, Star not_gt, str ''>'',
           Group 1 (Plus not_lt), str ''<'']"

definition chapterPatterns :: "rx list" where
  "chapterPatterns =
     [seqs [str ''<div'', Star not_gt, class_with [''episode'', ''chapter''],
            Star not_quote, quote, Star not_gt, str ''>'', Lazy (Cls AnyChar),
            Look (Alt (seqs [str ''<div'', Star not_gt, class_with [''episode'', ''chapter'']]) Eos)],
      seqs [str ''<a'', Star not_gt, class_with [''chapter''],
            Star not_quote, quote, Star not_gt, str ''>'', Lazy (Cls AnyChar), str ''</a>''],
      seqs [str ''<li'', Star not_gt, class_with [''chapter''],
            Star not_quote, quote, Star not_gt, str ''>'', Lazy (Cls AnyChar), str ''</li>'']]"

text \<open>Every expression that the module gives to \<open>extractAll\<close>.\<close>

definition extractAll_patterns :: "rx list" where
  "extractAll_patterns =
     mangaPatterns @ [genresPattern] @ chapterPatterns @ imgPatterns @ [any_img_rx]"

lemma extractAll_patterns_consume: "\<forall>pattern \<in> set extractAll_patterns. \<not> nullable pattern"
  using mangaPatterns_consume page_patterns_consume
  by (auto simp: extractAll_patterns_def genresPattern_def chapterPatterns_def rx_shape)

lemma popular_results_total: "\<exists>records. popular_results current html = Some records"
  using search_results_total [of current html] by (auto simp: popular_results_def)

lemma latest_results_total: "\<exists>records. latest_results current html = Some records"
proof -
  have "\<forall>r \<in> set [div_card_rx, anchor_card_rx]. \<not> nullable r"
    using mangaPatterns_consume by (simp add: mangaPatterns_def)
  from find_cards_total [OF this, of html] show ?thesis
    by (auto simp: latest_results_def)
qed

lemma getBatoPopularManga_total: "\<exists>records st'. getBatoPopularManga st = (Some records, st')"
  using popular_results_total
  by (simp add: getBatoPopularManga_def split: prod.splits)

lemma getBatoLatestUpdates_total: "\<exists>records st'. getBatoLatestUpdates st = (Some records, st')"
  using latest_results_total
  by (simp add: getBatoLatestUpdates_def split: prod.splits)

text \<open>
  C8: for every markup text, every parser, every query and every world, the
  extraction functions return a list: no exception leaves them and no loop runs for
  ever. \<open>extractAll\<close> returns for every expression that cannot match the empty text,
  and every expression that the module gives to it is one. The listing functions
  (\<open>searchBatoManga\<close>, \<open>getBatoPopularManga\<close>, \<open>getBatoLatestUpdates\<close>) and
  \<open>getBatoChapterPages\<close> return a list whatever the markup; on empty markup, on markup
  in which no candidate is found, and when every mirror failed, it is the empty list.
\<close>

theorem C8_extraction_never_raises:
  "(\<not> nullable pattern \<longrightarrow> (\<exists>matches. extractAll html pattern = Some matches))
   \<and> (\<forall>pattern \<in> set extractAll_patterns. \<not> nullable pattern)
   \<and> (\<exists>records. search_results current html = Some records)
   \<and> (\<exists>records. popular_results current html = Some records)
   \<and> (\<exists>records. latest_results current html = Some records)
   \<and> (\<exists>pages. chapter_pages parse current html = Some pages)
   \<and> (\<exists>records st'. searchBatoManga query st = (Some records, st'))
   \<and> (\<exists>records st'. getBatoPopularManga st = (Some records, st'))
   \<and> (\<exists>records st'. getBatoLatestUpdates st = (Some records, st'))
   \<and> (\<exists>pages st'. getBatoChapterPages parse chapterId st = (Some pages, st'))
   \<and> search_results current [] = Some []
   \<and> popular_results current [] = Some []
   \<and> chapter_pages parse current [] = Some []
   \<and> (find_cards mangaPatterns html = Some [] \<longrightarrow> search_results current html = Some [])
   \<and> (fst (tryBatoDomains (''/search?word='' @ encodeURIComponent query) st) = Inl e
        \<longrightarrow> fst (searchBatoManga query st) = Some [])"
proof (intro conjI impI)
  show "\<exists>matches. extractAll html pattern = Some matches" if "\<not> nullable pattern"
    using that by (rule extractAll_total)
  show "\<forall>pattern \<in> set extractAll_patterns. \<not> nullable pattern"
    by (rule extractAll_patterns_consume)
  show "\<exists>records. search_results current html = Some records"
    using search_results_total by blast
  show "\<exists>records. popular_results current html = Some records"
    by (rule popular_results_total)
  show "\<exists>records. latest_results current html = Some records"
    by (rule latest_results_total)
  show "\<exists>pages. chapter_pages parse current html = Some pages"
    by (rule chapter_pages_total)
  show "\<exists>records st'. searchBatoManga query st = (Some records, st')"
    by (rule searchBatoManga_total)
  show "\<exists>records st'. getBatoPopularManga st = (Some records, st')"
    by (rule getBatoPopularManga_total)
  show "\<exists>records st'. getBatoLatestUpdates st = (Some records, st')"
    by (rule getBatoLatestUpdates_total)
  show "\<exists>pages st'. getBatoChapterPages parse chapterId st = (Some pages, st')"
    by (rule getBatoChapterPages_total)
  show "search_results current [] = Some []"
    by (rule search_results_empty)
  show "popular_results current [] = Some []"
    by (simp add: popular_results_def)
  show "chapter_pages parse current [] = Some []"
    by (rule chapter_pages_empty)
  show "search_results current html = Some []" if "find_cards mangaPatterns html = Some []"
    using that by (simp add: search_results_def List.map_filter_simps)
  show "fst (searchBatoManga query st) = Some []"
    if "fst (tryBatoDomains (''/search?word='' @ encodeURIComponent query) st) = Inl e"
    using that by (auto simp: searchBatoManga_def split: prod.splits)
qed

text \<open>Malformed markup: an unclosed element with an unquoted attribute.\<close>

definition malformed :: string where
  "malformed = ''<div class=item-><article>x''"

lemma malformed_cards: "find_cards mangaPatterns malformed = Some []"
  by (simp add: mangaPatterns_def extractAll_def exec_loop.simps [of _ "c # cs" for c cs]
        rx_eval div_card_rx_def anchor_card_rx_def article_rx_def malformed_def)

lemma unreachable_search:
  "fst (tryBatoDomains (''/search?word='' @ encodeURIComponent ''abc'') (bato_init unreachable))
     = Inl AllDomainsFailed"
  by (simp add: tryBatoDomains_def BATO_DOMAINS_def bato_init_def cloudflareBypassFetch_def
        bato_loop.simps bato_try_block_def fetch_def settle_def sleep_def unreachable_def
        encodeURIComponent_def encode_char_def uri_unreserved_def numeral_3_eq_3)

theorem C8_extraction_never_raises_witness:
  "(\<exists>matches. extractAll malformed article_rx = Some matches)
   \<and> search_results ''https://bato.to'' malformed = Some []
   \<and> fst (searchBatoManga ''abc'' (bato_init unreachable)) = Some []
   \<and> \<not> nullable genresPattern"
proof -
  note inst = C8_extraction_never_raises [where pattern = article_rx and html = malformed
      and current = "''https://bato.to''" and query = "''abc''" and st = "bato_init unreachable"
      and e = AllDomainsFailed]
  have n: "\<not> nullable article_rx"
    by (simp add: article_rx_def rx_shape)
  from inst n have "\<exists>matches. extractAll malformed article_rx = Some matches" by blast
  moreover from inst malformed_cards
  have "search_results ''https://bato.to'' malformed = Some []" by blast
  moreover from inst unreachable_search
  have "fst (searchBatoManga ''abc'' (bato_init unreachable)) = Some []" by blast
  moreover from inst have "\<not> nullable genresPattern"
    by (simp add: extractAll_patterns_def)
  ultimately show ?thesis by blast
qed

end
